theory Spec2Isabelle
  imports Main "HOL-Library.Word" "HOL-Library.Char_ord" "HOL-Library.List_Lexorder"
begin

section \<open>The relay server of the Information Exchange System (server.cpp)\<close>

text \<open>
  The server keeps one global map \<open>active_clients\<close> from campus name to \<open>ClientInfo\<close>,
  guarded by \<open>clients_mutex\<close>. Each accepted connection is served by \<open>handle_client\<close>:
  a registration read, a receive loop that hands every message to \<open>route_tcp_message\<close>, and
  a cleanup that erases the entry. \<open>send_udp_broadcast\<close> sends one datagram per entry.

  Everything the functions do to the outside (socket calls, the mutex, console lines) is
  recorded, in program order, in a trace that is part of the server state. The outcome of a
  \<open>send\<close> or \<open>sendto\<close> call that the code branches on is given by a \<open>world\<close>: a predicate that,
  from the trace up to and including the call, says whether the call fails. Theorems quantify
  over every world, so every pattern of failures is covered. A \<open>send\<close> can also raise
  SIGPIPE, which ends the process inside the call; that third outcome is given by a second
  predicate, \<open>signals\<close>, and is applied where a thread goes on after a call: in
  \<open>receive_loop\<close>, \<open>handle_client\<close> and \<open>act\<close>.
\<close>

subsection \<open>Data\<close>

text \<open>\<open>struct sockaddr_in\<close>: the IPv4 address and the 16-bit port (the family is always AF_INET).\<close>

record sockaddr_in =
  sin_addr :: "32 word"
  sin_port :: "16 word"

record ClientInfo =
  tcp_socket :: int
  campus_name :: string
  udp_addr :: sockaddr_in

text \<open>
  \<open>std::map<std::string, ClientInfo>\<close>: an association list in the map's iteration order,
  which is ascending in the key (bytewise lexicographic order of \<open>std::string\<close>).
\<close>

type_synonym directory = "(string \<times> ClientInfo) list"

text \<open>
  The console output of server.cpp: one constructor per place that prints, with the values
  printed there. The two header lines of a broadcast are one \<open>BroadcastStartLine\<close>, and the
  lines of its summary, which print \<open>active_clients.size()\<close> and \<open>success_count\<close>, are one
  \<open>BroadcastSummaryLine\<close>.
\<close>

datatype console =
    RegistrationLine string int
  | InvalidPortLine
  | RegisterFailedLine
  | DisconnectLine string
  | RecvFailedLine
  | RemovedLine string
  | InvalidFormatLine string string
  | RoutingLine string string
  | RouteSendFailedLine
  | RoutedLine string
  | NotFoundLine string
  | BroadcastStartLine string
  | UdpFailLine string
  | BroadcastSummaryLine nat int

datatype event =
    Lock
  | Unlock
  | Send int string
  | SendTo sockaddr_in string
  | Close int
  | Console console

type_synonym world = "event list \<Rightarrow> bool"

record server =
  active_clients :: directory
  trace :: "event list"

text \<open>
  What one \<open>recv\<close> call returns: data, end of stream (0) or an error (-1). The call asks
  for at most \<open>BUFFER_SIZE - 1 = 1023\<close> bytes, so a data result has between 1 and 1023 bytes;
  nothing below depends on the upper bound.
\<close>

datatype recv_result = RecvData string | RecvEOF | RecvError

subsection \<open>Strings\<close>

text \<open>\<open>std::string::find(char)\<close>: the position of the first occurrence, \<open>None\<close> for \<open>npos\<close>.\<close>

fun str_find :: "string \<Rightarrow> char \<Rightarrow> nat option" where
  "str_find [] c = None"
| "str_find (x # xs) c = (if x = c then Some 0 else map_option Suc (str_find xs c))"

text \<open>
  \<open>std::string::substr(pos, n)\<close> and \<open>substr(pos)\<close>. Both throw when \<open>pos\<close> exceeds the
  length; every call site has \<open>pos \<le> length\<close> (lemma \<open>str_find_bound\<close>).
\<close>

definition substr :: "string \<Rightarrow> nat \<Rightarrow> nat \<Rightarrow> string" where
  "substr s pos n = take n (drop pos s)"

definition substr_from :: "string \<Rightarrow> nat \<Rightarrow> string" where
  "substr_from s pos = drop pos s"

text \<open>
  \<open>std::string(buffer)\<close> on the NUL-terminated receive buffer: the bytes before the first
  NUL byte.
\<close>

definition c_str :: "string \<Rightarrow> string" where
  "c_str buffer = takeWhile (\<lambda>c. c \<noteq> CHR 0x00) buffer"

text \<open>
  \<open>std::stoi(str)\<close> with base 10, as the C++ standard defines it through \<open>strtol\<close>: leading
  white space is skipped, one sign is optional, the longest run of decimal digits is
  converted and whatever follows is ignored. It throws \<open>invalid_argument\<close> when there is no
  digit to convert and \<open>out_of_range\<close> when the value does not fit an \<open>int\<close>.
\<close>

datatype stoi_error = invalid_argument | out_of_range

definition isspace :: "char \<Rightarrow> bool" where
  "isspace c = (c \<in> set [CHR 0x20, CHR 0x09, CHR 0x0A, CHR 0x0B, CHR 0x0C, CHR 0x0D])"

definition isdigit :: "char \<Rightarrow> bool" where
  "isdigit c = (48 \<le> (of_char c :: nat) \<and> (of_char c :: nat) \<le> 57)"

definition digit_val :: "char \<Rightarrow> int" where
  "digit_val c = int (of_char c) - 48"

fun decimal :: "int \<Rightarrow> string \<Rightarrow> int" where
  "decimal acc [] = acc"
| "decimal acc (c # cs) = decimal (10 * acc + digit_val c) cs"

definition strip_sign :: "string \<Rightarrow> bool \<times> string" where
  "strip_sign s =
     (case s of
        [] \<Rightarrow> (False, [])
      | c # r \<Rightarrow> if c = CHR ''-'' then (True, r)
                 else if c = CHR ''+'' then (False, r)
                 else (False, s))"

definition stoi :: "string \<Rightarrow> stoi_error + int" where
  "stoi str =
     (let (neg, rest) = strip_sign (dropWhile isspace str);
          digits = takeWhile isdigit rest
      in if digits = [] then Inl invalid_argument
         else let v = (if neg then - decimal 0 digits else decimal 0 digits)
              in if v < - 2147483648 \<or> 2147483647 < v then Inl out_of_range
                 else Inr v)"

text \<open>\<open>htons(udp_port)\<close>: the \<open>int\<close> is converted to \<open>uint16_t\<close>, that is, reduced modulo 65536.\<close>

definition htons :: "int \<Rightarrow> 16 word" where
  "htons p = word_of_int p"

subsection \<open>The map operations the server uses\<close>

text \<open>\<open>active_clients.find(key)\<close>.\<close>

definition dir_find :: "string \<Rightarrow> directory \<Rightarrow> ClientInfo option" where
  "dir_find key d = map_of d key"

text \<open>\<open>active_clients[key] = info\<close>: insert in key order, or assign over the present entry.\<close>

fun dir_assign :: "string \<Rightarrow> ClientInfo \<Rightarrow> directory \<Rightarrow> directory" where
  "dir_assign key info [] = [(key, info)]"
| "dir_assign key info ((k, v) # rest) =
     (if key < k then (key, info) # (k, v) # rest
      else if key = k then (key, info) # rest
      else (k, v) # dir_assign key info rest)"

text \<open>\<open>active_clients.erase(key)\<close>.\<close>

definition dir_erase :: "string \<Rightarrow> directory \<Rightarrow> directory" where
  "dir_erase key d = filter (\<lambda>(k, v). k \<noteq> key) d"

subsection \<open>Effects\<close>

definition emit :: "event \<Rightarrow> server \<Rightarrow> server" where
  "emit e st = st\<lparr>trace := trace st @ [e]\<rparr>"

definition bytes_received :: "recv_result \<Rightarrow> int" where
  "bytes_received r =
     (case r of RecvData buf \<Rightarrow> int (length buf) | RecvEOF \<Rightarrow> 0 | RecvError \<Rightarrow> - 1)"

definition buffer_of :: "recv_result \<Rightarrow> string" where
  "buffer_of r = (case r of RecvData buf \<Rightarrow> buf | RecvEOF \<Rightarrow> [] | RecvError \<Rightarrow> [])"

subsection \<open>\<open>send_udp_broadcast\<close>\<close>

text \<open>
  The \<open>for\<close> loop over \<open>active_clients\<close>, with its two counters and the trace. The counters
  are C++ \<open>int\<close>s; they stay far below \<open>2^31\<close> for any map that fits in memory.
\<close>

fun broadcast_loop ::
  "world \<Rightarrow> string \<Rightarrow> directory \<Rightarrow> int \<times> int \<times> event list \<Rightarrow> int \<times> int \<times> event list" where
  "broadcast_loop w message [] acc = acc"
| "broadcast_loop w message ((name, client) # rest) (success_count, fail_count, tr) =
     (let tr1 = tr @ [SendTo (udp_addr client) message]
      in if w tr1
         then broadcast_loop w message rest
                (success_count, fail_count + 1, tr1 @ [Console (UdpFailLine name)])
         else broadcast_loop w message rest (success_count + 1, fail_count, tr1))"

definition send_udp_broadcast :: "world \<Rightarrow> string \<Rightarrow> server \<Rightarrow> server" where
  "send_udp_broadcast w message st =
     (let tr0 = trace st @ [Lock, Console (BroadcastStartLine message)];
          (success_count, fail_count, tr1) =
             broadcast_loop w message (active_clients st) (0, 0, tr0)
      in st\<lparr>trace := tr1 @ [Console (BroadcastSummaryLine (length (active_clients st))
                                          success_count), Unlock]\<rparr>)"

subsection \<open>\<open>route_tcp_message\<close>\<close>

text \<open>
  The function as it runs when each \<open>send\<close> returns, with success or with -1. A \<open>send\<close>
  that raises SIGPIPE ends the process inside the call: then the trace of the process is
  the trace of this function up to and including that \<open>send\<close>, which \<open>sigpipe_cut\<close> below
  computes.
\<close>

definition not_active_notice :: "string \<Rightarrow> string" where
  "not_active_notice destination =
     ''SERVER: Error: Campus '' @ [CHR 0x27] @ destination @ [CHR 0x27]
       @ '' is not currently active.''"

definition route_tcp_message :: "world \<Rightarrow> string \<Rightarrow> string \<Rightarrow> server \<Rightarrow> server" where
  "route_tcp_message w sender_name full_message st =
     (case str_find full_message CHR '':'' of
        None \<Rightarrow> emit (Console (InvalidFormatLine sender_name full_message)) st
      | Some colon_pos \<Rightarrow>
          let destination = substr full_message 0 colon_pos;
              content = substr_from full_message (colon_pos + 1);
              final_msg = ''FROM '' @ sender_name @ '': '' @ content;
              st1 = emit (Console (RoutingLine sender_name destination)) st
          in if destination = ''BROADCAST''
             then send_udp_broadcast w
                    (''BROADCAST FROM '' @ sender_name @ '': '' @ content) st1
             else
               let st2 = emit Lock st1
               in emit Unlock
                    (case dir_find destination (active_clients st2) of
                       Some it \<Rightarrow>
                         let st3 = emit (Send (tcp_socket it) final_msg) st2
                         in if w (trace st3)
                            then emit (Console RouteSendFailedLine) st3
                            else emit (Console (RoutedLine destination)) st3
                     | None \<Rightarrow>
                         let st3 =
                               (case dir_find sender_name (active_clients st2) of
                                  Some sender_it \<Rightarrow>
                                    emit (Send (tcp_socket sender_it)
                                            (not_active_notice destination)) st2
                                | None \<Rightarrow> st2)
                         in emit (Console (NotFoundLine destination)) st3))"

subsection \<open>\<open>handle_client\<close>\<close>

definition welcome_msg :: "string \<Rightarrow> string" where
  "welcome_msg name = ''SERVER: Welcome, '' @ name @ ''! TCP and UDP services active.''"

text \<open>
  Part 1 of \<open>handle_client\<close>: the registration read. The result is the campus name when
  \<open>is_registered\<close> was set, and \<open>None\<close> when the function closed the socket and returned
  (\<open>close_unregistered\<close>). \<open>enter_client\<close> is the rest of the \<open>try\<close> block after
  \<open>std::stoi\<close> has returned: the lock is taken, the entry assigned, the welcome sent, and
  the lock released at the end of the block.
\<close>

definition close_unregistered :: "int \<Rightarrow> server \<Rightarrow> string option \<times> server" where
  "close_unregistered client_sock st =
     (None, emit (Close client_sock) (emit (Console RegisterFailedLine) st))"

definition enter_client ::
  "int \<Rightarrow> sockaddr_in \<Rightarrow> string \<Rightarrow> int \<Rightarrow> server \<Rightarrow> server" where
  "enter_client client_sock client_addr name udp_port st =
     emit Unlock
       (emit (Send client_sock (welcome_msg name))
          (emit (Console (RegistrationLine name udp_port))
             ((emit Lock st)
                \<lparr>active_clients :=
                   dir_assign name
                     \<lparr>tcp_socket = client_sock, campus_name = name,
                      udp_addr = \<lparr>sin_addr = sin_addr client_addr,
                                  sin_port = htons udp_port\<rparr>\<rparr>
                     (active_clients st)\<rparr>)))"

definition register_client ::
  "int \<Rightarrow> sockaddr_in \<Rightarrow> recv_result \<Rightarrow> server \<Rightarrow> string option \<times> server" where
  "register_client client_sock client_addr r st =
     (if bytes_received r > 0 then
        (case str_find (c_str (buffer_of r)) CHR '':'' of
           None \<Rightarrow> close_unregistered client_sock st
         | Some colon_pos \<Rightarrow>
             (case stoi (substr_from (c_str (buffer_of r)) (colon_pos + 1)) of
                Inl e \<Rightarrow> close_unregistered client_sock (emit (Console InvalidPortLine) st)
              | Inr udp_port \<Rightarrow>
                  (Some (substr (c_str (buffer_of r)) 0 colon_pos),
                   enter_client client_sock client_addr
                     (substr (c_str (buffer_of r)) 0 colon_pos) udp_port st)))
      else close_unregistered client_sock st)"

text \<open>
  Part 3 of \<open>handle_client\<close>: what follows the receive loop. The socket is closed before
  the mutex is taken, so the cleanup has two parts, and other threads can run between
  them: \<open>close_client\<close> prints and closes, \<open>unregister_client\<close> is the locked block that
  erases the entry.
\<close>

definition close_client :: "int \<Rightarrow> string \<Rightarrow> recv_result \<Rightarrow> server \<Rightarrow> server" where
  "close_client client_sock name r st =
     emit (Close client_sock)
       (if bytes_received r = 0 then emit (Console (DisconnectLine name)) st
        else emit (Console RecvFailedLine) st)"

definition unregister_client :: "string \<Rightarrow> server \<Rightarrow> server" where
  "unregister_client name st =
     emit Unlock
       (emit (Console (RemovedLine name))
          ((emit Lock st)\<lparr>active_clients := dir_erase name (active_clients st)\<rparr>))"

definition disconnect_client :: "int \<Rightarrow> string \<Rightarrow> recv_result \<Rightarrow> server \<Rightarrow> server" where
  "disconnect_client client_sock name r st =
     unregister_client name (close_client client_sock name r st)"

text \<open>The events a call adds to the trace.\<close>

definition new_events :: "server \<Rightarrow> server \<Rightarrow> event list" where
  "new_events st st' = drop (length (trace st)) (trace st')"

text \<open>
  SIGPIPE. Every \<open>send\<close> of server.cpp has flags 0, and the program neither ignores nor
  handles SIGPIPE. A \<open>send\<close> on a connection that the peer has reset therefore does not
  return: the signal ends the process. \<open>route_tcp_message\<close> and \<open>register_client\<close> above
  describe a call in which every \<open>send\<close> returns. A \<open>signals\<close> predicate says, of a trace
  that ends with a \<open>send\<close>, whether that \<open>send\<close> raises the signal. \<open>sigpipe_cut\<close> goes
  through the events of a call and gives the trace up to and including the first \<open>send\<close>
  that raises it, which is where the process ends; \<open>sendto\<close> on the datagram socket raises
  no signal.
\<close>

type_synonym signals = "event list \<Rightarrow> bool"

fun sigpipe_cut :: "signals \<Rightarrow> event list \<Rightarrow> event list \<Rightarrow> event list option" where
  "sigpipe_cut sg tr [] = None"
| "sigpipe_cut sg tr (Send fd m # es) =
     (if sg (tr @ [Send fd m]) then Some (tr @ [Send fd m])
      else sigpipe_cut sg (tr @ [Send fd m]) es)"
| "sigpipe_cut sg tr (e # es) = sigpipe_cut sg (tr @ [e]) es"

text \<open>
  Part 2 of \<open>handle_client\<close>: the receive loop, run on the results of the successive \<open>recv\<close>
  calls of this connection. When the list is used up the thread is blocked in \<open>recv\<close>. When
  a \<open>send\<close> of the routing raises SIGPIPE the result is \<open>Killed\<close>, with the trace as it
  stands at that \<open>send\<close>: nothing of the process runs after it.
\<close>

datatype session_status = Receiving | Closed | Killed

fun receive_loop ::
  "world \<Rightarrow> signals \<Rightarrow> int \<Rightarrow> string \<Rightarrow> recv_result list \<Rightarrow> server
     \<Rightarrow> session_status \<times> server" where
  "receive_loop w sg client_sock name [] st = (Receiving, st)"
| "receive_loop w sg client_sock name (r # rs) st =
     (if bytes_received r > 0
      then (case sigpipe_cut sg (trace st)
                   (new_events st (route_tcp_message w name (c_str (buffer_of r)) st)) of
              Some tr \<Rightarrow> (Killed, st\<lparr>trace := tr\<rparr>)
            | None \<Rightarrow>
                receive_loop w sg client_sock name rs
                  (route_tcp_message w name (c_str (buffer_of r)) st))
      else (Closed, disconnect_client client_sock name r st))"

text \<open>\<open>handle_client\<close> as a whole, on the results of all \<open>recv\<close> calls of the connection.\<close>

definition handle_client ::
  "world \<Rightarrow> signals \<Rightarrow> int \<Rightarrow> sockaddr_in \<Rightarrow> recv_result list \<Rightarrow> server
     \<Rightarrow> session_status \<times> server" where
  "handle_client w sg client_sock client_addr rs st =
     (case rs of
        [] \<Rightarrow> (Receiving, st)
      | r # rest \<Rightarrow>
          (case register_client client_sock client_addr r st of
             (None, st1) \<Rightarrow> (Closed, st1)
           | (Some name, st1) \<Rightarrow>
               (case sigpipe_cut sg (trace st) (new_events st st1) of
                  Some tr \<Rightarrow> (Killed, st\<lparr>trace := tr\<rparr>)
                | None \<Rightarrow> receive_loop w sg client_sock name rest st1)))"

subsection \<open>Projections of a trace\<close>

fun stream_writes :: "event list \<Rightarrow> (int \<times> string) list" where
  "stream_writes [] = []"
| "stream_writes (Send fd m # es) = (fd, m) # stream_writes es"
| "stream_writes (e # es) = stream_writes es"

fun datagrams :: "event list \<Rightarrow> (sockaddr_in \<times> string) list" where
  "datagrams [] = []"
| "datagrams (SendTo a m # es) = (a, m) # datagrams es"
| "datagrams (e # es) = datagrams es"

text \<open>The numbers that the console lines of a trace print.\<close>

fun printed_numbers :: "event list \<Rightarrow> int list" where
  "printed_numbers [] = []"
| "printed_numbers (Console (RegistrationLine name udp_port) # es) =
     udp_port # printed_numbers es"
| "printed_numbers (Console (BroadcastSummaryLine n success_count) # es) =
     int n # success_count # printed_numbers es"
| "printed_numbers (e # es) = printed_numbers es"

fun udp_fail_lines :: "event list \<Rightarrow> string list" where
  "udp_fail_lines [] = []"
| "udp_fail_lines (Console (UdpFailLine name) # es) = name # udp_fail_lines es"
| "udp_fail_lines (e # es) = udp_fail_lines es"

fun closes :: "event list \<Rightarrow> int list" where
  "closes [] = []"
| "closes (Close fd # es) = fd # closes es"
| "closes (e # es) = closes es"

subsection \<open>The mutex along a trace\<close>

text \<open>
  \<open>held_after held es\<close>: whether \<open>clients_mutex\<close> is held after the events \<open>es\<close>, when it
  was held (or not) before them. \<open>io_while_locked\<close>: some \<open>send\<close> or \<open>sendto\<close> happens with
  the mutex held. \<open>io_all_locked\<close>: every \<open>send\<close> and \<open>sendto\<close> happens with it held.
\<close>

fun held_after :: "bool \<Rightarrow> event list \<Rightarrow> bool" where
  "held_after held [] = held"
| "held_after held (Lock # es) = held_after True es"
| "held_after held (Unlock # es) = held_after False es"
| "held_after held (e # es) = held_after held es"

fun io_while_locked :: "bool \<Rightarrow> event list \<Rightarrow> bool" where
  "io_while_locked held [] = False"
| "io_while_locked held (Lock # es) = io_while_locked True es"
| "io_while_locked held (Unlock # es) = io_while_locked False es"
| "io_while_locked held (Send fd m # es) = (held \<or> io_while_locked held es)"
| "io_while_locked held (SendTo a m # es) = (held \<or> io_while_locked held es)"
| "io_while_locked held (e # es) = io_while_locked held es"

fun io_all_locked :: "bool \<Rightarrow> event list \<Rightarrow> bool" where
  "io_all_locked held [] = True"
| "io_all_locked held (Lock # es) = io_all_locked True es"
| "io_all_locked held (Unlock # es) = io_all_locked False es"
| "io_all_locked held (Send fd m # es) = (held \<and> io_all_locked held es)"
| "io_all_locked held (SendTo a m # es) = (held \<and> io_all_locked held es)"
| "io_all_locked held (e # es) = io_all_locked held es"

subsection \<open>The server as a whole\<close>

text \<open>
  \<open>main\<close> starts one detached \<open>handle_client\<close> thread per accepted connection. A system
  state is the shared server state together with the threads: \<open>sessions\<close> are the threads
  in their receive loop and \<open>closing\<close> are the threads that have closed their socket and
  have not yet taken the mutex to erase their entry, each with its two locals
  \<open>client_sock\<close> and \<open>campus_name\<close>. An action is a piece of one thread that the other
  threads cannot interleave with as far as the map goes, because it touches the map only
  inside one locked block or not at all:
  \<^item> \<open>Accept\<close>: a new thread does its registration read;
  \<^item> \<open>Receive\<close>: the \<open>recv\<close> of a thread in its loop returns; data is routed, and on end of
    stream or error the thread prints, closes its socket and becomes a closing thread;
  \<^item> \<open>Unregister\<close>: a closing thread runs its locked block and ends.
  Between the \<open>Receive\<close> that closes a socket and the \<open>Unregister\<close> of the same thread any
  other action can happen. When a \<open>send\<close> raises SIGPIPE the process ends: the state is
  \<open>killed\<close>, without map and without threads, and no action changes it.
\<close>

record system =
  shared :: server
  sessions :: "(int \<times> string) list"
  closing :: "(int \<times> string) list"
  alive :: bool

datatype action =
    Accept int sockaddr_in recv_result
  | Receive int recv_result
  | Unregister int string

definition killed :: "event list \<Rightarrow> system" where
  "killed tr =
     \<lparr>shared = \<lparr>active_clients = [], trace = tr\<rparr>, sessions = [], closing = [],
      alive = False\<rparr>"

fun act :: "world \<Rightarrow> signals \<Rightarrow> action \<Rightarrow> system \<Rightarrow> system" where
  "act w sg (Accept client_sock client_addr r) sys =
     (case register_client client_sock client_addr r (shared sys) of
        (None, st) \<Rightarrow> sys\<lparr>shared := st\<rparr>
      | (Some name, st) \<Rightarrow>
          (case sigpipe_cut sg (trace (shared sys)) (new_events (shared sys) st) of
             Some tr \<Rightarrow> killed tr
           | None \<Rightarrow> sys\<lparr>shared := st, sessions := sessions sys @ [(client_sock, name)]\<rparr>))"
| "act w sg (Receive client_sock r) sys =
     (case map_of (sessions sys) client_sock of
        None \<Rightarrow> sys
      | Some name \<Rightarrow>
          if bytes_received r > 0
          then (case sigpipe_cut sg (trace (shared sys))
                       (new_events (shared sys)
                          (route_tcp_message w name (c_str (buffer_of r)) (shared sys))) of
                  Some tr \<Rightarrow> killed tr
                | None \<Rightarrow>
                    sys\<lparr>shared := route_tcp_message w name (c_str (buffer_of r)) (shared sys)\<rparr>)
          else sys\<lparr>shared := close_client client_sock name r (shared sys),
                   sessions := filter (\<lambda>(fd, n). fd \<noteq> client_sock) (sessions sys),
                   closing := closing sys @ [(client_sock, name)]\<rparr>)"
| "act w sg (Unregister client_sock name) sys =
     (if (client_sock, name) \<in> set (closing sys)
      then sys\<lparr>shared := unregister_client name (shared sys),
               closing := remove1 (client_sock, name) (closing sys)\<rparr>
      else sys)"

definition step :: "world \<Rightarrow> signals \<Rightarrow> action \<Rightarrow> system \<Rightarrow> system" where
  "step w sg a sys = (if alive sys then act w sg a sys else sys)"

fun run :: "world \<Rightarrow> signals \<Rightarrow> action list \<Rightarrow> system \<Rightarrow> system" where
  "run w sg [] sys = sys"
| "run w sg (a # as) sys = run w sg as (step w sg a sys)"

definition initial_server :: server where
  "initial_server = \<lparr>active_clients = [], trace = []\<rparr>"

definition initial_system :: system where
  "initial_system = \<lparr>shared = initial_server, sessions = [], closing = [], alive = True\<rparr>"

text \<open>
  An accepted socket is a descriptor that no thread in its receive loop holds: \<open>accept\<close>
  never returns an open descriptor, but it can return one that a closing thread has
  closed. \<open>fresh_name\<close> is the condition the code does not check: the name in a
  registration is not the name of a thread that is in its loop or closing.
\<close>

definition fresh_socket :: "action \<Rightarrow> system \<Rightarrow> bool" where
  "fresh_socket a sys =
     (case a of
        Accept client_sock client_addr r \<Rightarrow> client_sock \<notin> set (map fst (sessions sys))
      | Receive client_sock r \<Rightarrow> True
      | Unregister client_sock name \<Rightarrow> True)"

definition fresh_name :: "action \<Rightarrow> system \<Rightarrow> bool" where
  "fresh_name a sys =
     (case a of
        Accept client_sock client_addr r \<Rightarrow>
          (case fst (register_client client_sock client_addr r (shared sys)) of
             None \<Rightarrow> True
           | Some name \<Rightarrow> name \<notin> set (map snd (sessions sys @ closing sys)))
      | Receive client_sock r \<Rightarrow> True
      | Unregister client_sock name \<Rightarrow> True)"

fun unique_names_run :: "world \<Rightarrow> signals \<Rightarrow> action list \<Rightarrow> system \<Rightarrow> bool" where
  "unique_names_run w sg [] sys = True"
| "unique_names_run w sg (a # as) sys =
     (fresh_socket a sys \<and> fresh_name a sys \<and> unique_names_run w sg as (step w sg a sys))"

text \<open>
  The names in the Directory, the names of the threads in their loop (the active
  sessions) and the names of the closing threads.
\<close>

definition registered_names :: "system \<Rightarrow> string set" where
  "registered_names sys = set (map fst (active_clients (shared sys)))"

definition session_names :: "system \<Rightarrow> string set" where
  "session_names sys = set (map snd (sessions sys))"

definition closing_names :: "system \<Rightarrow> string set" where
  "closing_names sys = set (map snd (closing sys))"

subsection \<open>The registration payload as the protocol describes it\<close>

text \<open>
  The first payload is \<open>identity:port\<close>: the identity is what stands before
  the first colon and the port segment is what follows that colon. These two definitions
  follow the protocol's words; \<open>segments_of_find\<close> relates them to the \<open>find\<close> and \<open>substr\<close>
  calls of \<open>handle_client\<close>.
\<close>

definition identity_segment :: "string \<Rightarrow> string" where
  "identity_segment s = takeWhile (\<lambda>c. c \<noteq> CHR '':'') s"

definition port_segment :: "string \<Rightarrow> string" where
  "port_segment s = drop (Suc (length (identity_segment s))) s"

text \<open>
  The Directory and the threads agree: the active sessions have distinct sockets, all
  threads have distinct names, the names in the map are the names of the threads, and the
  entry of each thread holds the socket of that thread.
\<close>

definition consistent :: "system \<Rightarrow> bool" where
  "consistent sys =
     (distinct (map fst (sessions sys)) \<and> distinct (map snd (sessions sys @ closing sys))
      \<and> registered_names sys = session_names sys \<union> closing_names sys
      \<and> list_all (\<lambda>(fd, name).
            map_option tcp_socket (dir_find name (active_clients (shared sys))) = Some fd)
          (sessions sys @ closing sys))"

subsection \<open>What a broadcast owes each recipient\<close>

text \<open>
  These two definitions follow the words of the broadcast contract, not the loop. For one
  entry, \<open>recipient_events\<close> is the \<open>sendto\<close> to its datagram address, followed by the
  failure line with its name when the call failed. \<open>sendto_failed\<close> lists, for the entries
  in map order, whether the \<open>sendto\<close> to that entry fails: the world judges each call on
  the trace as it stands when the call is made.
\<close>

definition recipient_events :: "string \<Rightarrow> string \<times> ClientInfo \<Rightarrow> bool \<Rightarrow> event list" where
  "recipient_events message entry failed =
     SendTo (udp_addr (snd entry)) message
       # (if failed then [Console (UdpFailLine (fst entry))] else [])"

fun sendto_failed :: "world \<Rightarrow> string \<Rightarrow> directory \<Rightarrow> event list \<Rightarrow> bool list" where
  "sendto_failed w message [] tr = []"
| "sendto_failed w message (entry # rest) tr =
     w (tr @ [SendTo (udp_addr (snd entry)) message])
       # sendto_failed w message rest
           (tr @ recipient_events message entry
                   (w (tr @ [SendTo (udp_addr (snd entry)) message])))"

subsection \<open>Concrete inputs\<close>

definition no_failures :: world where
  "no_failures tr = False"

text \<open>A world in which only the datagram to port 5002 gets through.\<close>

definition only_5002 :: world where
  "only_5002 tr =
     (case rev tr of
        [] \<Rightarrow> False
      | e # es \<Rightarrow> (case e of SendTo a m \<Rightarrow> sin_port a \<noteq> 5002 | _ \<Rightarrow> False))"

definition peer :: sockaddr_in where
  "peer = \<lparr>sin_addr = 0x7F000001, sin_port = 40000\<rparr>"

definition client_entry :: "int \<Rightarrow> string \<Rightarrow> int \<Rightarrow> ClientInfo" where
  "client_entry fd name port =
     \<lparr>tcp_socket = fd, campus_name = name,
      udp_addr = \<lparr>sin_addr = 0x7F000001, sin_port = htons port\<rparr>\<rparr>"

definition two_campuses :: server where
  "two_campuses =
     \<lparr>active_clients = [(''A'', client_entry 6 ''A'' 5001), (''B'', client_entry 5 ''B'' 5002)],
      trace = []\<rparr>"

definition three_campuses :: server where
  "three_campuses =
     \<lparr>active_clients = [(''A'', client_entry 6 ''A'' 5001), (''B'', client_entry 5 ''B'' 5002),
                        (''C'', client_entry 7 ''C'' 5003)],
      trace = []\<rparr>"

definition with_broadcast_campus :: server where
  "with_broadcast_campus =
     \<lparr>active_clients = [(''A'', client_entry 6 ''A'' 5001),
                        (''BROADCAST'', client_entry 5 ''BROADCAST'' 5002)],
      trace = []\<rparr>"

text \<open>The name \<open>A\<close> registered on socket 5, and then again on socket 6.\<close>

definition first_A :: server where
  "first_A = snd (register_client 5 peer (RecvData ''A:5001'') initial_server)"

definition second_A :: server where
  "second_A = snd (register_client 6 peer (RecvData ''A:5002'') first_A)"

text \<open>Worlds in which every \<open>sendto\<close> fails, no \<open>send\<close> raises SIGPIPE, every \<open>send\<close> does.\<close>

definition all_fail :: world where
  "all_fail tr = True"

definition no_sigpipe :: signals where
  "no_sigpipe tr = False"


text \<open>
  Three runs of the system. In \<open>orderly_actions\<close> two campuses register, one sends a message
  to the other, gets end of stream and unregisters. In \<open>duplicate_actions\<close> two connections
  register the same name and the first of them disconnects. In \<open>reuse_actions\<close> the
  connection of \<open>A\<close> on socket 5 ends and is closed; before its thread takes the mutex, a
  new connection is accepted on the descriptor 5 and registers \<open>C\<close>, and \<open>B\<close> sends a message
  to \<open>A\<close>.
\<close>

definition orderly_actions :: "action list" where
  "orderly_actions =
     [Accept 5 peer (RecvData ''A:5001''), Accept 6 peer (RecvData ''B:5002''),
      Receive 5 (RecvData ''B:hello''), Receive 5 RecvEOF, Unregister 5 ''A'']"

definition duplicate_actions :: "action list" where
  "duplicate_actions =
     [Accept 5 peer (RecvData ''A:5001''), Accept 6 peer (RecvData ''A:5002''),
      Receive 5 RecvEOF, Unregister 5 ''A'']"

definition reuse_actions :: "action list" where
  "reuse_actions =
     [Accept 5 peer (RecvData ''A:5001''), Accept 6 peer (RecvData ''B:5002''),
      Receive 5 RecvEOF, Accept 5 peer (RecvData ''C:5003''),
      Receive 6 (RecvData ''A:secret'')]"

section \<open>Basic facts\<close>

subsection \<open>Strings, traces and the broadcast loop\<close>

lemma str_find_None_iff: "str_find s c = None \<longleftrightarrow> c \<notin> set s"
  by (induction s) auto

lemma str_find_first: "c \<notin> set d \<Longrightarrow> str_find (d @ c # rest) c = Some (length d)"
  by (induction d) auto

lemma str_find_split:
  "str_find s c = Some n \<Longrightarrow> s = take n s @ c # drop (Suc n) s \<and> c \<notin> set (take n s) \<and> n < length s"
proof (induction s arbitrary: n)
  case Nil
  then show ?case by simp
next
  case (Cons x xs)
  show ?case
  proof (cases "x = c")
    case True
    with Cons.prems show ?thesis by simp
  next
    case False
    with Cons.prems obtain m where m: "str_find xs c = Some m" "n = Suc m"
      by auto
    from Cons.IH [OF m(1)] False m(2) show ?thesis by simp
  qed
qed

lemma stream_writes_append: "stream_writes (xs @ ys) = stream_writes xs @ stream_writes ys"
  by (induction xs rule: stream_writes.induct) simp_all

lemma datagrams_append: "datagrams (xs @ ys) = datagrams xs @ datagrams ys"
  by (induction xs rule: datagrams.induct) simp_all

lemma trace_emit: "trace (emit e st) = trace st @ [e]"
  by (simp add: emit_def)

lemma active_clients_emit: "active_clients (emit e st) = active_clients st"
  by (simp add: emit_def)

lemma broadcast_loop_datagrams:
  "datagrams (snd (snd (broadcast_loop w m d (s, f, tr)))) =
     datagrams tr @ map (\<lambda>(name, client). (udp_addr client, m)) d"
  by (induction d arbitrary: s f tr) (auto simp: Let_def datagrams_append)

lemma broadcast_loop_stream_writes:
  "stream_writes (snd (snd (broadcast_loop w m d (s, f, tr)))) = stream_writes tr"
  by (induction d arbitrary: s f tr) (auto simp: Let_def stream_writes_append)

lemma broadcast_loop_counts:
  "fst (broadcast_loop w m d (s, f, tr)) + fst (snd (broadcast_loop w m d (s, f, tr)))
     = s + f + int (length d)"
  by (induction d arbitrary: s f tr) (auto simp: Let_def)

lemma active_clients_broadcast:
  "active_clients (send_udp_broadcast w m st) = active_clients st"
  by (simp add: send_udp_broadcast_def Let_def split: prod.splits)

lemma stream_writes_broadcast:
  "stream_writes (trace (send_udp_broadcast w m st)) = stream_writes (trace st)"
proof -
  obtain s f tr where b:
    "broadcast_loop w m (active_clients st)
       (0, 0, trace st @ [Lock, Console (BroadcastStartLine m)]) = (s, f, tr)"
    by (cases "broadcast_loop w m (active_clients st)
       (0, 0, trace st @ [Lock, Console (BroadcastStartLine m)])") auto
  have "stream_writes tr = stream_writes (trace st @ [Lock, Console (BroadcastStartLine m)])"
    using broadcast_loop_stream_writes [of w m "active_clients st" 0 0
        "trace st @ [Lock, Console (BroadcastStartLine m)]"] b by simp
  then show ?thesis
    by (simp add: send_udp_broadcast_def b stream_writes_append)
qed

lemma datagrams_broadcast:
  "datagrams (trace (send_udp_broadcast w m st)) =
     datagrams (trace st) @ map (\<lambda>(name, client). (udp_addr client, m)) (active_clients st)"
proof -
  obtain s f tr where b:
    "broadcast_loop w m (active_clients st)
       (0, 0, trace st @ [Lock, Console (BroadcastStartLine m)]) = (s, f, tr)"
    by (cases "broadcast_loop w m (active_clients st)
       (0, 0, trace st @ [Lock, Console (BroadcastStartLine m)])") auto
  have "datagrams tr = datagrams (trace st @ [Lock, Console (BroadcastStartLine m)])
          @ map (\<lambda>(name, client). (udp_addr client, m)) (active_clients st)"
    using broadcast_loop_datagrams [of w m "active_clients st" 0 0
        "trace st @ [Lock, Console (BroadcastStartLine m)]"] b by simp
  then show ?thesis
    by (simp add: send_udp_broadcast_def b datagrams_append)
qed

lemma route_directed:
  assumes "CHR '':'' \<notin> set B" "B \<noteq> ''BROADCAST''"
  shows "route_tcp_message w A (B @ '':'' @ content) st =
     emit Unlock
       (case dir_find B (active_clients st) of
          Some it \<Rightarrow>
            (if w (trace st @ [Console (RoutingLine A B), Lock,
                               Send (tcp_socket it) (''FROM '' @ A @ '': '' @ content)])
             then emit (Console RouteSendFailedLine)
             else emit (Console (RoutedLine B)))
              (emit (Send (tcp_socket it) (''FROM '' @ A @ '': '' @ content))
                 (emit Lock (emit (Console (RoutingLine A B)) st)))
        | None \<Rightarrow>
            emit (Console (NotFoundLine B))
              (case dir_find A (active_clients st) of
                 Some sender_it \<Rightarrow>
                   emit (Send (tcp_socket sender_it) (not_active_notice B))
                     (emit Lock (emit (Console (RoutingLine A B)) st))
               | None \<Rightarrow> emit Lock (emit (Console (RoutingLine A B)) st)))"
  using assms
  by (simp add: route_tcp_message_def str_find_first substr_def substr_from_def Let_def
      trace_emit active_clients_emit split: option.splits)

lemma route_broadcast:
  "route_tcp_message w A (''BROADCAST:'' @ content) st =
     send_udp_broadcast w (''BROADCAST FROM '' @ A @ '': '' @ content)
       (emit (Console (RoutingLine A ''BROADCAST'')) st)"
  by (simp add: route_tcp_message_def substr_def substr_from_def Let_def)

lemma route_no_separator:
  "CHR '':'' \<notin> set m \<Longrightarrow>
     route_tcp_message w A m st = emit (Console (InvalidFormatLine A m)) st"
  by (simp add: route_tcp_message_def str_find_None_iff [THEN iffD2])

lemma set_c_str: "set (c_str p) \<subseteq> set p"
  by (auto simp: c_str_def dest: set_takeWhileD)

lemma new_events_append: "trace st' = trace st @ es \<Longrightarrow> new_events st st' = es"
  by (simp add: new_events_def)

lemma route_hit:
  assumes "CHR '':'' \<notin> set B" and "B \<noteq> ''BROADCAST''"
    and "dir_find B (active_clients st) = Some b"
  shows "route_tcp_message w A (B @ '':'' @ content) st =
     emit Unlock
       (emit (Console (if w (trace st @ [Console (RoutingLine A B), Lock,
                                         Send (tcp_socket b) (''FROM '' @ A @ '': '' @ content)])
                       then RouteSendFailedLine else RoutedLine B))
          (emit (Send (tcp_socket b) (''FROM '' @ A @ '': '' @ content))
             (emit Lock (emit (Console (RoutingLine A B)) st))))"
  apply (subst route_directed [OF assms(1,2)])
  apply (simp only: assms(3) option.case)
  apply (simp only: if_distrib [of "\<lambda>f. f _"] if_distrib [of "\<lambda>l. emit (Console l)"])
  done

lemma route_miss:
  assumes "CHR '':'' \<notin> set Z" and "Z \<noteq> ''BROADCAST''"
    and "dir_find Z (active_clients st) = None"
  shows "route_tcp_message w A (Z @ '':'' @ content) st =
     emit Unlock
       (emit (Console (NotFoundLine Z))
          (case dir_find A (active_clients st) of
             Some sender_it \<Rightarrow>
               emit (Send (tcp_socket sender_it) (not_active_notice Z))
                 (emit Lock (emit (Console (RoutingLine A Z)) st))
           | None \<Rightarrow> emit Lock (emit (Console (RoutingLine A Z)) st)))"
  apply (subst route_directed [OF assms(1,2)])
  apply (simp only: assms(3) option.case)
  done

lemma c_str_Nil_iff: "c_str p = [] \<longleftrightarrow> p = [] \<or> hd p = CHR 0x00"
  by (cases p) (auto simp: c_str_def)

lemma route_hit_stream_writes:
  assumes "CHR '':'' \<notin> set B" and "B \<noteq> ''BROADCAST''"
    and "dir_find B (active_clients st) = Some b"
  shows "stream_writes (trace (route_tcp_message w A (B @ '':'' @ content) st)) =
     stream_writes (trace st) @ [(tcp_socket b, ''FROM '' @ A @ '': '' @ content)]"
  unfolding route_hit [OF assms] by (simp add: trace_emit stream_writes_append)

subsection \<open>The events of a broadcast and of a routed message\<close>

lemma held_after_append: "held_after h (xs @ ys) = held_after (held_after h xs) ys"
  by (induction h xs rule: held_after.induct) simp_all

lemma io_all_locked_append:
  "io_all_locked h (xs @ ys) \<longleftrightarrow> io_all_locked h xs \<and> io_all_locked (held_after h xs) ys"
  by (induction h xs rule: io_all_locked.induct) auto

lemma udp_fail_lines_append: "udp_fail_lines (xs @ ys) = udp_fail_lines xs @ udp_fail_lines ys"
  by (induction xs rule: udp_fail_lines.induct) simp_all

lemma printed_numbers_append: "printed_numbers (xs @ ys) = printed_numbers xs @ printed_numbers ys"
  by (induction xs rule: printed_numbers.induct) simp_all

lemma closes_append: "closes (xs @ ys) = closes xs @ closes ys"
  by (induction xs rule: closes.induct) simp_all

lemma broadcast_loop_extends:
  "\<exists>evs. snd (snd (broadcast_loop w m d (s, f, tr))) = tr @ evs
     \<and> stream_writes evs = []
     \<and> datagrams evs = map (\<lambda>(name, client). (udp_addr client, m)) d
     \<and> io_all_locked True evs \<and> held_after True evs
     \<and> closes evs = [] \<and> printed_numbers evs = []
     \<and> fst (snd (broadcast_loop w m d (s, f, tr))) = f + int (length (udp_fail_lines evs))
     \<and> fst (broadcast_loop w m d (s, f, tr)) =
           s + int (length d) - int (length (udp_fail_lines evs))"
proof (induction d arbitrary: s f tr)
  case Nil
  show ?case by simp
next
  case (Cons entry rest)
  obtain name client where entry: "entry = (name, client)"
    by (cases entry)
  let ?call = "SendTo (udp_addr client) m"
  show ?case
  proof (cases "w (tr @ [?call])")
    case True
    from Cons.IH [of s "f + 1" "(tr @ [?call]) @ [Console (UdpFailLine name)]"]
    obtain evs where evs:
      "snd (snd (broadcast_loop w m rest (s, f + 1, (tr @ [?call]) @ [Console (UdpFailLine name)])))
         = ((tr @ [?call]) @ [Console (UdpFailLine name)]) @ evs"
      "stream_writes evs = []"
      "datagrams evs = map (\<lambda>(name, client). (udp_addr client, m)) rest"
      "io_all_locked True evs" "held_after True evs"
      "closes evs = []" "printed_numbers evs = []"
      "fst (snd (broadcast_loop w m rest (s, f + 1, (tr @ [?call]) @ [Console (UdpFailLine name)])))
         = f + 1 + int (length (udp_fail_lines evs))"
      "fst (broadcast_loop w m rest (s, f + 1, (tr @ [?call]) @ [Console (UdpFailLine name)]))
         = s + int (length rest) - int (length (udp_fail_lines evs))"
      by blast
    show ?thesis
      apply (rule exI [of _ "?call # Console (UdpFailLine name) # evs"])
      using True evs by (simp add: entry)
  next
    case False
    from Cons.IH [of "s + 1" f "tr @ [?call]"]
    obtain evs where evs:
      "snd (snd (broadcast_loop w m rest (s + 1, f, tr @ [?call]))) = (tr @ [?call]) @ evs"
      "stream_writes evs = []"
      "datagrams evs = map (\<lambda>(name, client). (udp_addr client, m)) rest"
      "io_all_locked True evs" "held_after True evs"
      "closes evs = []" "printed_numbers evs = []"
      "fst (snd (broadcast_loop w m rest (s + 1, f, tr @ [?call])))
         = f + int (length (udp_fail_lines evs))"
      "fst (broadcast_loop w m rest (s + 1, f, tr @ [?call]))
         = s + 1 + int (length rest) - int (length (udp_fail_lines evs))"
      by blast
    show ?thesis
      apply (rule exI [of _ "?call # evs"])
      using False evs by (simp add: entry)
  qed
qed

lemma send_udp_broadcast_events:
  "\<exists>evs success_count.
     trace (send_udp_broadcast w m st) =
       trace st @ [Lock, Console (BroadcastStartLine m)] @ evs @
       [Console (BroadcastSummaryLine (length (active_clients st)) success_count), Unlock]
     \<and> stream_writes evs = []
     \<and> datagrams evs = map (\<lambda>(name, client). (udp_addr client, m)) (active_clients st)
     \<and> io_all_locked True evs \<and> held_after True evs
     \<and> closes evs = [] \<and> printed_numbers evs = []
     \<and> success_count = int (length (active_clients st)) - int (length (udp_fail_lines evs))
     \<and> fst (broadcast_loop w m (active_clients st)
               (0, 0, trace st @ [Lock, Console (BroadcastStartLine m)])) = success_count
     \<and> fst (snd (broadcast_loop w m (active_clients st)
               (0, 0, trace st @ [Lock, Console (BroadcastStartLine m)])))
          = int (length (udp_fail_lines evs))"
proof -
  let ?tr0 = "trace st @ [Lock, Console (BroadcastStartLine m)]"
  let ?r = "broadcast_loop w m (active_clients st) (0, 0, ?tr0)"
  from broadcast_loop_extends [of w m "active_clients st" 0 0 ?tr0]
  obtain evs where evs:
    "snd (snd ?r) = ?tr0 @ evs"
    "stream_writes evs = []"
    "datagrams evs = map (\<lambda>(name, client). (udp_addr client, m)) (active_clients st)"
    "io_all_locked True evs" "held_after True evs"
    "closes evs = []" "printed_numbers evs = []"
    "fst (snd ?r) = 0 + int (length (udp_fail_lines evs))"
    "fst ?r = 0 + int (length (active_clients st)) - int (length (udp_fail_lines evs))"
    by blast
  have "trace (send_udp_broadcast w m st) =
      snd (snd ?r) @ [Console (BroadcastSummaryLine (length (active_clients st)) (fst ?r)), Unlock]"
    by (simp add: send_udp_broadcast_def Let_def split: prod.splits)
  then have n: "trace (send_udp_broadcast w m st) = trace st @
      [Lock, Console (BroadcastStartLine m)] @ evs @
       [Console (BroadcastSummaryLine (length (active_clients st)) (fst ?r)), Unlock]"
    unfolding evs(1) by simp
  show ?thesis
    apply (rule exI [of _ evs])
    apply (rule exI [of _ "fst ?r"])
    using n evs by simp
qed


lemma dir_find_assign:
  "dir_find k (dir_assign key info d) = (if k = key then Some info else dir_find k d)"
  unfolding dir_find_def by (induction d) auto

lemma dir_find_erase:
  "dir_find k (dir_erase key d) = (if k = key then None else dir_find k d)"
  unfolding dir_find_def dir_erase_def by (induction d) auto


lemma send_udp_broadcast_lock:
  "\<exists>evs. trace (send_udp_broadcast w m st) = trace st @ evs
     \<and> io_all_locked False evs \<and> held_after False evs = False
     \<and> stream_writes evs = []
     \<and> datagrams evs = map (\<lambda>(name, client). (udp_addr client, m)) (active_clients st)"
proof -
  from send_udp_broadcast_events [of w m st]
  obtain evs success_count where t:
    "trace (send_udp_broadcast w m st) =
       trace st @ [Lock, Console (BroadcastStartLine m)] @ evs @
       [Console (BroadcastSummaryLine (length (active_clients st)) success_count), Unlock]"
    and evs: "io_all_locked True evs" "held_after True evs" "stream_writes evs = []"
      "datagrams evs = map (\<lambda>(name, client). (udp_addr client, m)) (active_clients st)"
    by blast
  let ?all = "[Lock, Console (BroadcastStartLine m)] @ evs @
       [Console (BroadcastSummaryLine (length (active_clients st)) success_count), Unlock]"
  have "io_all_locked False ?all" "held_after False ?all = False"
    "stream_writes ?all = []"
    "datagrams ?all = map (\<lambda>(name, client). (udp_addr client, m)) (active_clients st)"
    using evs
    by (simp_all add: io_all_locked_append held_after_append stream_writes_append
        datagrams_append)
  with t show ?thesis by blast
qed

lemma route_tcp_message_lock:
  "\<exists>evs. trace (route_tcp_message w A full_message st) = trace st @ evs
     \<and> io_all_locked False evs \<and> held_after False evs = False"
proof (cases "str_find full_message CHR '':''")
  case None
  then have "route_tcp_message w A full_message st =
      emit (Console (InvalidFormatLine A full_message)) st"
    by (simp add: route_tcp_message_def)
  then have "trace (route_tcp_message w A full_message st) =
      trace st @ [Console (InvalidFormatLine A full_message)]"
    by (simp add: trace_emit)
  then show ?thesis by simp
next
  case (Some n)
  define B where "B = take n full_message"
  define content where "content = drop (Suc n) full_message"
  from str_find_split [OF Some]
  have full: "full_message = B @ '':'' @ content" and B: "CHR '':'' \<notin> set B"
    unfolding B_def content_def by simp_all
  let ?routing = "Console (RoutingLine A B)"
  show ?thesis
  proof (cases "B = ''BROADCAST''")
    case True
    let ?m = "''BROADCAST FROM '' @ A @ '': '' @ content"
    have r: "route_tcp_message w A full_message st = send_udp_broadcast w ?m (emit ?routing st)"
      unfolding full True using route_broadcast [of w A content st] by simp
    from send_udp_broadcast_lock [of w ?m "emit ?routing st"]
    obtain evs where evs: "trace (send_udp_broadcast w ?m (emit ?routing st)) =
        trace (emit ?routing st) @ evs" "io_all_locked False evs" "held_after False evs = False"
      by blast
    have "trace (route_tcp_message w A full_message st) = trace st @ (?routing # evs)"
      unfolding r evs(1) by (simp add: trace_emit)
    moreover have "io_all_locked False (?routing # evs)" "held_after False (?routing # evs) = False"
      using evs(2,3) by simp_all
    ultimately show ?thesis by blast
  next
    case False
    show ?thesis
    proof (cases "dir_find B (active_clients st)")
      case (Some b)
      from route_hit [OF B False Some, of w A content]
      obtain line where r: "route_tcp_message w A full_message st =
          emit Unlock (emit (Console line)
            (emit (Send (tcp_socket b) (''FROM '' @ A @ '': '' @ content))
              (emit Lock (emit ?routing st))))"
        unfolding full by blast
      have "trace (route_tcp_message w A full_message st) = trace st @
          [?routing, Lock, Send (tcp_socket b) (''FROM '' @ A @ '': '' @ content),
           Console line, Unlock]"
        unfolding r by (simp add: trace_emit)
      then show ?thesis by simp
    next
      case None
      note r = route_miss [OF B False None, of w A content, folded full]
      show ?thesis
      proof (cases "dir_find A (active_clients st)")
        case None
        have "trace (route_tcp_message w A full_message st) = trace st @
            [?routing, Lock, Console (NotFoundLine B), Unlock]"
          unfolding r None by (simp add: trace_emit)
        then show ?thesis by simp
      next
        case (Some a)
        have "trace (route_tcp_message w A full_message st) = trace st @
            [?routing, Lock, Send (tcp_socket a) (not_active_notice B),
             Console (NotFoundLine B), Unlock]"
          unfolding r Some by (simp add: trace_emit)
        then show ?thesis by simp
      qed
    qed
  qed
qed

subsection \<open>The registration read\<close>

lemma segments_of_find:
  "str_find s CHR '':'' = Some n \<Longrightarrow>
     substr s 0 n = identity_segment s \<and> substr_from s (n + 1) = port_segment s"
proof (induction s arbitrary: n)
  case Nil
  then show ?case by simp
next
  case (Cons x xs)
  show ?case
  proof (cases "x = CHR '':''")
    case True
    with Cons.prems show ?thesis
      by (simp add: substr_def substr_from_def identity_segment_def port_segment_def)
  next
    case False
    with Cons.prems obtain m where m: "str_find xs CHR '':'' = Some m" "n = Suc m"
      by auto
    from Cons.IH [OF m(1)] False m(2) show ?thesis
      by (simp add: substr_def substr_from_def identity_segment_def port_segment_def)
  qed
qed

lemma identity_segment_no_colon: "CHR '':'' \<notin> set (identity_segment s)"
  unfolding identity_segment_def by (induction s) auto

lemma identity_segment_subset: "set (identity_segment s) \<subseteq> set s"
  unfolding identity_segment_def by (auto dest: set_takeWhileD)

lemma c_str_no_NUL: "CHR 0x00 \<notin> set (c_str p)"
  unfolding c_str_def by (induction p) auto

lemma split_at_colon:
  "CHR '':'' \<in> set s \<Longrightarrow> s = identity_segment s @ '':'' @ port_segment s"
  unfolding port_segment_def identity_segment_def by (induction s) auto

lemma close_unregistered_facts:
  "fst (close_unregistered sock st) = None"
  "active_clients (snd (close_unregistered sock st)) = active_clients st"
  "trace (snd (close_unregistered sock st)) =
     trace st @ [Console RegisterFailedLine, Close sock]"
  by (simp_all add: close_unregistered_def emit_def)

lemma enter_client_facts:
  "active_clients (enter_client sock addr name port st) =
     dir_assign name
       \<lparr>tcp_socket = sock, campus_name = name,
        udp_addr = \<lparr>sin_addr = sin_addr addr, sin_port = htons port\<rparr>\<rparr>
       (active_clients st)"
  "trace (enter_client sock addr name port st) =
     trace st @ [Lock, Console (RegistrationLine name port), Send sock (welcome_msg name), Unlock]"
  by (simp_all add: enter_client_def emit_def)

text \<open>The three ways a registration read can end.\<close>

lemma register_client_cases:
  "register_client sock addr (RecvData payload) st =
     (if payload = [] \<or> CHR '':'' \<notin> set (c_str payload) then close_unregistered sock st
      else case stoi (port_segment (c_str payload)) of
             Inl e \<Rightarrow> close_unregistered sock (emit (Console InvalidPortLine) st)
           | Inr udp_port \<Rightarrow>
               (Some (identity_segment (c_str payload)),
                enter_client sock addr (identity_segment (c_str payload)) udp_port st))"
proof (cases "str_find (c_str payload) CHR '':''")
  case None
  then have "CHR '':'' \<notin> set (c_str payload)"
    by (simp add: str_find_None_iff)
  with None show ?thesis
    by (simp add: register_client_def bytes_received_def buffer_of_def)
next
  case (Some n)
  then have c: "CHR '':'' \<in> set (c_str payload)"
    using str_find_None_iff [of "c_str payload" "CHR '':''"] by auto
  then have ne: "payload \<noteq> []"
    by (auto simp: c_str_def)
  from segments_of_find [OF Some] Some c ne show ?thesis
    by (simp add: register_client_def bytes_received_def buffer_of_def split: sum.splits)
qed


lemma welcome_only:
  "stream_writes [Lock, Console (RegistrationLine name port), Send sock (welcome_msg name), Unlock]
     = [(sock, welcome_msg name)]"
  "closes [Lock, Console (RegistrationLine name port), Send sock (welcome_msg name), Unlock] = []"
  by simp_all

lemma register_client_Some:
  assumes "register_client sock addr r st = (Some name, st')"
  shows "\<exists>udp_port. name = identity_segment (c_str (buffer_of r))
           \<and> stoi (port_segment (c_str (buffer_of r))) = Inr udp_port
           \<and> st' = enter_client sock addr name udp_port st"
proof -
  have "bytes_received r > 0"
  proof (rule ccontr)
    assume "\<not> bytes_received r > 0"
    then have "register_client sock addr r st = close_unregistered sock st"
      by (simp add: register_client_def)
    with assms show False by (simp add: close_unregistered_def)
  qed
  then obtain payload where r: "r = RecvData payload"
    by (cases r) (simp_all add: bytes_received_def)
  from assms show ?thesis
    unfolding r register_client_cases
    by (auto simp: close_unregistered_def buffer_of_def split: if_splits sum.splits)
qed

lemma register_client_None:
  assumes "register_client sock addr r st = (None, st')"
  shows "active_clients st' = active_clients st"
  using assms
  by (auto simp: register_client_def close_unregistered_def active_clients_emit
      split: if_splits option.splits sum.splits)

lemma names_assign: "fst ` set (dir_assign k v d) = insert k (fst ` set d)"
proof (induction d)
  case Nil
  show ?case by simp
next
  case (Cons e d)
  obtain a b where e: "e = (a, b)" by (cases e)
  from Cons.IH show ?case unfolding e by (simp add: insert_commute)
qed

lemma names_erase: "fst ` set (dir_erase k d) = fst ` set d - {k}"
  by (auto simp: dir_erase_def)

lemma dir_find_name: "dir_find k d = Some v \<Longrightarrow> k \<in> fst ` set d"
  unfolding dir_find_def by (auto dest: map_of_SomeD intro: rev_image_eqI)

lemma route_keeps_clients:
  "active_clients (route_tcp_message w A m st) = active_clients st"
  by (simp add: route_tcp_message_def Let_def active_clients_emit active_clients_broadcast
      split: option.splits)

subsection \<open>The receive loop\<close>

lemma receive_loop_data:
  "payload \<noteq> [] \<Longrightarrow>
     receive_loop w sg sock A (RecvData payload # rs) st =
       (case sigpipe_cut sg (trace st)
               (new_events st (route_tcp_message w A (c_str payload) st)) of
          Some tr \<Rightarrow> (Killed, st\<lparr>trace := tr\<rparr>)
        | None \<Rightarrow> receive_loop w sg sock A rs (route_tcp_message w A (c_str payload) st))"
  by (simp add: bytes_received_def buffer_of_def cong: option.case_cong)

lemma c_str_nonempty: "c_str payload = x # xs \<Longrightarrow> payload \<noteq> []"
  by (auto simp: c_str_def)

lemma route_hit_events:
  assumes "CHR '':'' \<notin> set B" and "B \<noteq> ''BROADCAST''"
    and "dir_find B (active_clients st) = Some b"
  shows "\<exists>line. trace (route_tcp_message w A (B @ '':'' @ content) st) =
      trace st @ [Console (RoutingLine A B), Lock,
                  Send (tcp_socket b) (''FROM '' @ A @ '': '' @ content), Console line, Unlock]"
  unfolding route_hit [OF assms] by (simp add: trace_emit)


lemma receive_loop_hit:
  assumes p: "c_str payload = B @ '':'' @ content"
    and B: "CHR '':'' \<notin> set B" "B \<noteq> ''BROADCAST''"
    and b: "dir_find B (active_clients st) = Some b"
  shows "receive_loop w sg sock A (RecvData payload # rs) st =
     (if sg (trace st @ [Console (RoutingLine A B), Lock,
                         Send (tcp_socket b) (''FROM '' @ A @ '': '' @ content)])
      then (Killed, st\<lparr>trace := trace st @ [Console (RoutingLine A B), Lock,
                         Send (tcp_socket b) (''FROM '' @ A @ '': '' @ content)]\<rparr>)
      else receive_loop w sg sock A rs (route_tcp_message w A (B @ '':'' @ content) st))"
proof -
  let ?m = "''FROM '' @ A @ '': '' @ content"
  from p have ne: "payload \<noteq> []"
    by (cases B) (auto dest: c_str_nonempty)
  from route_hit_events [OF B b, of w A content]
  obtain line where t: "trace (route_tcp_message w A (B @ '':'' @ content) st) =
      trace st @ [Console (RoutingLine A B), Lock, Send (tcp_socket b) ?m, Console line, Unlock]"
    by blast
  have n: "new_events st (route_tcp_message w A (B @ '':'' @ content) st) =
      [Console (RoutingLine A B), Lock, Send (tcp_socket b) ?m, Console line, Unlock]"
    by (rule new_events_append [OF t])
  show ?thesis
    unfolding receive_loop_data [OF ne] p n by simp
qed



subsection \<open>The broadcast loop and the outcome of each \<open>sendto\<close>\<close>

lemma length_sendto_failed: "length (sendto_failed w m d tr) = length d"
  by (induction d arbitrary: tr) simp_all

lemma broadcast_loop_sendto_failed:
  "broadcast_loop w m d (s, f, tr) =
     (s + int (length (filter Not (sendto_failed w m d tr))),
      f + int (length (filter (\<lambda>failed. failed) (sendto_failed w m d tr))),
      tr @ concat (map2 (recipient_events m) d (sendto_failed w m d tr)))"
proof (induction d arbitrary: s f tr)
  case Nil
  show ?case by simp
next
  case (Cons entry rest)
  obtain name client where entry: "entry = (name, client)"
    by (cases entry)
  show ?case
  proof (cases "w (tr @ [SendTo (udp_addr client) m])")
    case True
    then show ?thesis
      unfolding entry
      using Cons.IH [of s "f + 1" "(tr @ [SendTo (udp_addr client) m]) @ [Console (UdpFailLine name)]"]
      by (simp add: recipient_events_def Let_def)
  next
    case False
    then show ?thesis
      unfolding entry
      using Cons.IH [of "s + 1" f "tr @ [SendTo (udp_addr client) m]"]
      by (simp add: recipient_events_def Let_def)
  qed
qed

lemma sendto_failed_nth:
  "i < length d \<Longrightarrow>
     sendto_failed w m d tr ! i =
       w (tr @ concat (map2 (recipient_events m) (take i d) (take i (sendto_failed w m d tr)))
             @ [SendTo (udp_addr (snd (d ! i))) m])"
proof (induction d arbitrary: tr i)
  case Nil
  then show ?case by simp
next
  case (Cons entry rest)
  show ?case
  proof (cases i)
    case 0
    then show ?thesis by simp
  next
    case (Suc j)
    with Cons.prems have "j < length rest" by simp
    from Cons.IH [OF this] show ?thesis
      unfolding Suc by simp
  qed
qed

lemma sendto_failed_all:
  "(\<forall>tr. w tr) \<Longrightarrow> sendto_failed w m d tr = replicate (length d) True"
  by (induction d arbitrary: tr) simp_all

lemma sendto_failed_none:
  "(\<forall>tr. \<not> w tr) \<Longrightarrow> sendto_failed w m d tr = replicate (length d) False"
  by (induction d arbitrary: tr) simp_all

lemma recipient_events_one:
  "datagrams (recipient_events m entry failed) = [(udp_addr (snd entry), m)]"
  "stream_writes (recipient_events m entry failed) = []"
  "printed_numbers (recipient_events m entry failed) = []"
  "udp_fail_lines (recipient_events m entry failed) = (if failed then [fst entry] else [])"
  by (simp_all add: recipient_events_def)

lemma recipient_events_datagrams:
  "datagrams (concat (map2 (recipient_events m) d fs)) =
     map (\<lambda>(name, client). (udp_addr client, m)) (take (length fs) d)"
  by (induction d fs rule: list_induct2')
    (auto simp: datagrams_append recipient_events_one)

lemma recipient_events_stream_writes:
  "stream_writes (concat (map2 (recipient_events m) d fs)) = []"
  by (induction d fs rule: list_induct2')
    (auto simp: stream_writes_append recipient_events_one)

lemma recipient_events_printed_numbers:
  "printed_numbers (concat (map2 (recipient_events m) d fs)) = []"
  by (induction d fs rule: list_induct2')
    (auto simp: printed_numbers_append recipient_events_one)

lemma recipient_events_udp_fail_lines:
  "udp_fail_lines (concat (map2 (recipient_events m) d fs)) =
     map (\<lambda>(entry, failed). fst entry) (filter (\<lambda>(entry, failed). failed) (zip d fs))"
  by (induction d fs rule: list_induct2')
    (auto simp: udp_fail_lines_append recipient_events_one)

lemma length_filter_failed:
  "length (filter (\<lambda>(entry, failed). failed) (zip d fs)) =
     length (filter (\<lambda>failed. failed) (take (length d) fs))"
  by (induction d fs rule: list_induct2') auto

lemma length_filter_both:
  "length (filter Not fs) + length (filter (\<lambda>failed. failed) fs) = length fs"
  by (induction fs) auto

subsection \<open>Threads and the map stay consistent\<close>

lemma close_client_facts:
  "active_clients (close_client sock name r st) = active_clients st"
  "\<exists>line. trace (close_client sock name r st) = trace st @ [Console line, Close sock]"
  by (simp_all add: close_client_def emit_def)

lemma unregister_client_facts:
  "active_clients (unregister_client name st) = dir_erase name (active_clients st)"
  "trace (unregister_client name st) =
     trace st @ [Lock, Console (RemovedLine name), Unlock]"
  by (simp_all add: unregister_client_def emit_def)

lemma distinct_map_eq:
  "distinct (map f xs) \<Longrightarrow> x \<in> set xs \<Longrightarrow> y \<in> set xs \<Longrightarrow> f x = f y \<Longrightarrow> x = y"
  by (auto simp: distinct_map dest: inj_onD)

lemma list_all_pairs:
  "list_all (\<lambda>(a, b). P a b) xs \<longleftrightarrow> (\<forall>a b. (a, b) \<in> set xs \<longrightarrow> P a b)"
  by (auto simp: list_all_iff)

lemma consistent_entries:
  "consistent sys \<Longrightarrow> (fd, n) \<in> set (sessions sys @ closing sys) \<Longrightarrow>
     map_option tcp_socket (dir_find n (active_clients (shared sys))) = Some fd"
  unfolding consistent_def list_all_pairs by blast

lemma consistent_initial: "consistent initial_system"
  by (simp add: consistent_def initial_system_def initial_server_def registered_names_def
      session_names_def closing_names_def)

lemma consistent_killed: "consistent (killed tr)"
  by (simp add: consistent_def killed_def registered_names_def session_names_def
      closing_names_def)

lemma consistent_same:
  assumes "consistent sys"
    and "active_clients (shared sys') = active_clients (shared sys)"
    and "sessions sys' = sessions sys" and "closing sys' = closing sys"
  shows "consistent sys'"
  using assms
  by (simp add: consistent_def registered_names_def session_names_def closing_names_def)

lemma consistent_accept:
  assumes c: "consistent sys"
    and sock: "client_sock \<notin> set (map fst (sessions sys))"
    and name: "name \<notin> set (map snd (sessions sys @ closing sys))"
    and st: "active_clients st = dir_assign name info (active_clients (shared sys))"
    and info: "tcp_socket info = client_sock"
  shows "consistent (sys\<lparr>shared := st, sessions := sessions sys @ [(client_sock, name)]\<rparr>)"
proof -
  let ?new = "(sessions sys @ [(client_sock, name)]) @ closing sys"
  have l: "\<forall>fd n. (fd, n) \<in> set ?new \<longrightarrow>
      map_option tcp_socket (dir_find n (active_clients st)) = Some fd"
  proof (intro allI impI)
    fix fd n assume "(fd, n) \<in> set ?new"
    then consider "(fd, n) = (client_sock, name)"
      | "(fd, n) \<in> set (sessions sys @ closing sys)"
      by auto
    then show "map_option tcp_socket (dir_find n (active_clients st)) = Some fd"
    proof cases
      case 1
      with info show ?thesis
        unfolding st by (simp add: dir_find_assign)
    next
      case 2
      with name have "n \<noteq> name" by force
      with consistent_entries [OF c 2] show ?thesis
        unfolding st by (simp add: dir_find_assign)
    qed
  qed
  from c have d1: "distinct (map fst (sessions sys))"
    and d2: "distinct (map snd (sessions sys @ closing sys))"
    and names: "fst ` set (active_clients (shared sys)) =
        snd ` set (sessions sys) \<union> snd ` set (closing sys)"
    by (simp_all add: consistent_def registered_names_def session_names_def closing_names_def)
  from d1 sock have d1': "distinct (map fst (sessions sys @ [(client_sock, name)]))"
    by simp
  from d2 name have d2': "distinct (map snd ?new)"
    by auto
  have names': "fst ` set (active_clients st) =
      snd ` set (sessions sys @ [(client_sock, name)]) \<union> snd ` set (closing sys)"
    unfolding st names_assign names by auto
  from d1' d2' names' l show ?thesis
    unfolding consistent_def list_all_pairs
    by (simp add: registered_names_def session_names_def closing_names_def)
qed

lemma consistent_close:
  assumes c: "consistent sys"
    and s: "map_of (sessions sys) client_sock = Some name"
    and st: "active_clients st = active_clients (shared sys)"
  shows "consistent
     (sys\<lparr>shared := st,
          sessions := filter (\<lambda>(fd, n). fd \<noteq> client_sock) (sessions sys),
          closing := closing sys @ [(client_sock, name)]\<rparr>)"
proof -
  let ?keep = "filter (\<lambda>(fd, n). fd \<noteq> client_sock) (sessions sys)"
  from c have d1: "distinct (map fst (sessions sys))"
    and d2: "distinct (map snd (sessions sys @ closing sys))"
    and names: "fst ` set (active_clients (shared sys)) =
        snd ` set (sessions sys) \<union> snd ` set (closing sys)"
    by (simp_all add: consistent_def registered_names_def session_names_def closing_names_def)
  from s have mem: "(client_sock, name) \<in> set (sessions sys)"
    by (rule map_of_SomeD)
  then have mem2: "(client_sock, name) \<in> set (sessions sys @ closing sys)"
    by simp
  have other: "n \<noteq> name"
    if "(fd, n) \<in> set (sessions sys @ closing sys)" "(fd, n) \<noteq> (client_sock, name)" for fd n
    using distinct_map_eq [OF d2 that(1) mem2] that(2) by auto
  have same: "n = name" if "(client_sock, n) \<in> set (sessions sys)" for n
    using distinct_map_eq [OF d1 that mem] by auto
  have keep_set: "set ?keep = set (sessions sys) - {(client_sock, name)}"
    using same by auto
  have not_closing: "(client_sock, name) \<notin> set (closing sys)"
    using d2 mem by (auto simp: image_iff)
  have k: "snd ` set ?keep = snd ` set (sessions sys) - {name}"
  proof (intro set_eqI iffI)
    fix n assume "n \<in> snd ` set ?keep"
    then obtain e where e: "e \<in> set ?keep" "n = snd e"
      by auto
    then have m: "(fst e, n) \<in> set (sessions sys)" "(fst e, n) \<noteq> (client_sock, name)"
      unfolding keep_set by auto
    with other [of "fst e" n] show "n \<in> snd ` set (sessions sys) - {name}"
      by force
  next
    fix n assume "n \<in> snd ` set (sessions sys) - {name}"
    then obtain fd where f: "(fd, n) \<in> set (sessions sys)" "n \<noteq> name"
      by auto
    then have "(fd, n) \<in> set ?keep"
      unfolding keep_set by auto
    then show "n \<in> snd ` set ?keep" by force
  qed
  have name_free: "name \<notin> snd ` set ?keep" "name \<notin> snd ` set (closing sys)"
  proof -
    show "name \<notin> snd ` set ?keep" unfolding k by simp
    show "name \<notin> snd ` set (closing sys)"
    proof
      assume "name \<in> snd ` set (closing sys)"
      then obtain fd where m: "(fd, name) \<in> set (closing sys)" by auto
      with not_closing have "(fd, name) \<noteq> (client_sock, name)" by auto
      with other [of fd name] m show False by simp
    qed
  qed
  have dk: "distinct (map snd ?keep)"
    using d2 by (simp add: distinct_map_filter)
  have dc: "distinct (map snd (closing sys))"
    using d2 by simp
  have disj: "snd ` set ?keep \<inter> snd ` set (closing sys) = {}"
    using d2 unfolding k by auto
  have d2': "distinct (map snd (?keep @ closing sys @ [(client_sock, name)]))"
    using dk dc disj name_free by auto
  have names': "fst ` set (active_clients st) =
      snd ` set ?keep \<union> snd ` set (closing sys @ [(client_sock, name)])"
    unfolding st names k using mem by force
  have l: "\<forall>fd n. (fd, n) \<in> set (?keep @ closing sys @ [(client_sock, name)]) \<longrightarrow>
      map_option tcp_socket (dir_find n (active_clients st)) = Some fd"
  proof (intro allI impI)
    fix fd n assume "(fd, n) \<in> set (?keep @ closing sys @ [(client_sock, name)])"
    with mem have "(fd, n) \<in> set (sessions sys @ closing sys)"
      by auto
    from consistent_entries [OF c this]
    show "map_option tcp_socket (dir_find n (active_clients st)) = Some fd"
      unfolding st .
  qed
  from d1 have d1': "distinct (map fst ?keep)"
    by (rule distinct_map_filter)
  from d1' d2' names' l show ?thesis
    unfolding consistent_def list_all_pairs
    by (simp add: registered_names_def session_names_def closing_names_def)
qed

lemma consistent_unregister:
  assumes c: "consistent sys"
    and m: "(client_sock, name) \<in> set (closing sys)"
    and st: "active_clients st = dir_erase name (active_clients (shared sys))"
  shows "consistent
     (sys\<lparr>shared := st, closing := remove1 (client_sock, name) (closing sys)\<rparr>)"
proof -
  let ?rest = "remove1 (client_sock, name) (closing sys)"
  from c have d1: "distinct (map fst (sessions sys))"
    and d2: "distinct (map snd (sessions sys @ closing sys))"
    and names: "fst ` set (active_clients (shared sys)) =
        snd ` set (sessions sys) \<union> snd ` set (closing sys)"
    by (simp_all add: consistent_def registered_names_def session_names_def closing_names_def)
  from m have mem2: "(client_sock, name) \<in> set (sessions sys @ closing sys)"
    by simp
  have other: "n \<noteq> name"
    if "(fd, n) \<in> set (sessions sys @ closing sys)" "(fd, n) \<noteq> (client_sock, name)" for fd n
    using distinct_map_eq [OF d2 that(1) mem2] that(2) by auto
  from d2 have dc: "distinct (closing sys)"
    by (simp add: distinct_map)
  then have rest_set: "set ?rest = set (closing sys) - {(client_sock, name)}"
    by simp
  have not_session: "(client_sock, name) \<notin> set (sessions sys)"
    using d2 m by (auto simp: image_iff)
  have r: "snd ` set ?rest = snd ` set (closing sys) - {name}"
  proof (intro set_eqI iffI)
    fix n assume "n \<in> snd ` set ?rest"
    then obtain e where e: "e \<in> set ?rest" "n = snd e"
      by auto
    then have "(fst e, n) \<in> set (closing sys)" "(fst e, n) \<noteq> (client_sock, name)"
      unfolding rest_set by auto
    with other [of "fst e" n] show "n \<in> snd ` set (closing sys) - {name}"
      by force
  next
    fix n assume "n \<in> snd ` set (closing sys) - {name}"
    then obtain fd where "(fd, n) \<in> set (closing sys)" "n \<noteq> name"
      by auto
    then have "(fd, n) \<in> set ?rest"
      unfolding rest_set by auto
    then show "n \<in> snd ` set ?rest" by force
  qed
  have sess: "name \<notin> snd ` set (sessions sys)"
  proof
    assume "name \<in> snd ` set (sessions sys)"
    then obtain fd where s: "(fd, name) \<in> set (sessions sys)" by auto
    with not_session have "(fd, name) \<noteq> (client_sock, name)" by auto
    with other [of fd name] s show False by simp
  qed
  have d2': "distinct (map snd (sessions sys @ ?rest))"
  proof -
    from d2 have ds: "distinct (map snd (sessions sys))"
      and inj: "inj_on snd (set (closing sys))"
      and disj: "snd ` set (sessions sys) \<inter> snd ` set (closing sys) = {}"
      by (simp_all add: distinct_map)
    from inj have "inj_on snd (set ?rest)"
      by (rule inj_on_subset) (simp add: rest_set)
    with dc have "distinct (map snd ?rest)"
      by (simp add: distinct_map)
    moreover from disj have "snd ` set (sessions sys) \<inter> snd ` set ?rest = {}"
      unfolding r by auto
    ultimately show ?thesis
      using ds by simp
  qed
  have names': "fst ` set (active_clients st) = snd ` set (sessions sys) \<union> snd ` set ?rest"
    unfolding st names_erase names r using sess by auto
  have l: "\<forall>fd n. (fd, n) \<in> set (sessions sys @ ?rest) \<longrightarrow>
      map_option tcp_socket (dir_find n (active_clients st)) = Some fd"
  proof (intro allI impI)
    fix fd n assume e: "(fd, n) \<in> set (sessions sys @ ?rest)"
    with not_session have in_all: "(fd, n) \<in> set (sessions sys @ closing sys)"
      and ne: "(fd, n) \<noteq> (client_sock, name)"
      unfolding set_append rest_set by auto
    from other [OF in_all ne] have "n \<noteq> name" .
    with consistent_entries [OF c in_all]
    show "map_option tcp_socket (dir_find n (active_clients st)) = Some fd"
      unfolding st by (simp add: dir_find_erase)
  qed
  from d1 d2' names' l show ?thesis
    unfolding consistent_def list_all_pairs
    by (simp add: registered_names_def session_names_def closing_names_def)
qed


lemma consistent_act:
  assumes "consistent sys" and "fresh_socket a sys" and "fresh_name a sys"
  shows "consistent (act w sg a sys)"
proof (cases a)
  case (Accept client_sock client_addr r)
  obtain res st where reg: "register_client client_sock client_addr r (shared sys) = (res, st)"
    by (cases "register_client client_sock client_addr r (shared sys)")
  show ?thesis
  proof (cases res)
    case None
    from register_client_None [OF reg [unfolded None]]
    have "active_clients st = active_clients (shared sys)" .
    then have "consistent (sys\<lparr>shared := st\<rparr>)"
      by (intro consistent_same [OF assms(1)]) simp_all
    then show ?thesis
      unfolding Accept by (simp add: reg None)
  next
    case (Some name)
    from register_client_Some [OF reg [unfolded Some]]
    obtain udp_port where st: "st = enter_client client_sock client_addr name udp_port (shared sys)"
      by blast
    from assms(2) have sock: "client_sock \<notin> set (map fst (sessions sys))"
      unfolding Accept by (simp add: fresh_socket_def)
    from assms(3) have name: "name \<notin> set (map snd (sessions sys @ closing sys))"
      unfolding Accept by (simp add: fresh_name_def reg Some)
    have entered: "consistent (sys\<lparr>shared := st, sessions := sessions sys @ [(client_sock, name)]\<rparr>)"
    proof (rule consistent_accept [OF assms(1) sock name])
      show "active_clients st =
          dir_assign name
            \<lparr>tcp_socket = client_sock, campus_name = name,
             udp_addr = \<lparr>sin_addr = sin_addr client_addr, sin_port = htons udp_port\<rparr>\<rparr>
            (active_clients (shared sys))"
        unfolding st by (rule enter_client_facts)
    qed simp
    show ?thesis
    proof (cases "sigpipe_cut sg (trace (shared sys)) (new_events (shared sys) st)")
      case None
      with entered show ?thesis
        unfolding Accept by (simp add: reg Some)
    next
      case (Some tr)
      then show ?thesis
        unfolding Accept by (simp add: reg \<open>res = Some name\<close> consistent_killed)
    qed
  qed
next
  case (Receive client_sock r)
  show ?thesis
  proof (cases "map_of (sessions sys) client_sock")
    case None
    with assms(1) show ?thesis
      unfolding Receive by simp
  next
    case (Some name)
    let ?st = "route_tcp_message w name (c_str (buffer_of r)) (shared sys)"
    show ?thesis
    proof (cases "bytes_received r > 0")
      case True
      have routed: "consistent (sys\<lparr>shared := ?st\<rparr>)"
        by (intro consistent_same [OF assms(1)]) (simp_all add: route_keeps_clients)
      show ?thesis
      proof (cases "sigpipe_cut sg (trace (shared sys)) (new_events (shared sys) ?st)")
        case None
        with True routed show ?thesis
          unfolding Receive by (simp add: Some)
      next
        case cut: (Some tr)
        with True show ?thesis
          unfolding Receive by (simp add: Some consistent_killed)
      qed
    next
      case False
      have "consistent
          (sys\<lparr>shared := close_client client_sock name r (shared sys),
               sessions := filter (\<lambda>(fd, n). fd \<noteq> client_sock) (sessions sys),
               closing := closing sys @ [(client_sock, name)]\<rparr>)"
        by (rule consistent_close [OF assms(1) Some]) (rule close_client_facts)
      with False show ?thesis
        unfolding Receive by (simp add: Some)
    qed
  qed
next
  case (Unregister client_sock name)
  show ?thesis
  proof (cases "(client_sock, name) \<in> set (closing sys)")
    case True
    have "consistent (sys\<lparr>shared := unregister_client name (shared sys),
        closing := remove1 (client_sock, name) (closing sys)\<rparr>)"
      by (rule consistent_unregister [OF assms(1) True]) (rule unregister_client_facts)
    with True show ?thesis
      unfolding Unregister by simp
  next
    case False
    with assms(1) show ?thesis
      unfolding Unregister by simp
  qed
qed

lemma consistent_step:
  "consistent sys \<Longrightarrow> fresh_socket a sys \<Longrightarrow> fresh_name a sys \<Longrightarrow>
     consistent (step w sg a sys)"
  by (simp add: step_def consistent_act)

lemma consistent_run:
  "consistent sys \<Longrightarrow> unique_names_run w sg as sys \<Longrightarrow> consistent (run w sg as sys)"
  by (induction as arbitrary: sys) (simp_all add: consistent_step)

lemma consistent_no_closing:
  "consistent sys \<Longrightarrow> closing sys = [] \<Longrightarrow> registered_names sys = session_names sys"
  by (simp add: consistent_def closing_names_def)

subsection \<open>The map as the server builds it\<close>

lemma dir_assign_sorted:
  "sorted_wrt (<) (map fst d) \<Longrightarrow> sorted_wrt (<) (map fst (dir_assign k v d))"
proof (induction d)
  case Nil
  show ?case by simp
next
  case (Cons e d)
  obtain a b where e: "e = (a, b)" by (cases e)
  from Cons.prems have less: "\<forall>x \<in> fst ` set d. a < x" and rest: "sorted_wrt (<) (map fst d)"
    unfolding e by simp_all
  show ?case
  proof (cases "k < a")
    case True
    with less rest show ?thesis
      unfolding e by (auto intro: less_trans)
  next
    case False
    show ?thesis
    proof (cases "k = a")
      case True
      with less rest show ?thesis
        unfolding e by simp
    next
      case neq: False
      with False have "a < k" by simp
      with less Cons.IH [OF rest] False neq show ?thesis
        unfolding e by (simp add: names_assign)
    qed
  qed
qed

lemma dir_erase_sorted:
  "sorted_wrt (<) (map fst d) \<Longrightarrow> sorted_wrt (<) (map fst (dir_erase k d))"
  unfolding dir_erase_def by (induction d) auto

lemma act_clients:
  "active_clients (shared (act w sg a sys)) = active_clients (shared sys)
   \<or> active_clients (shared (act w sg a sys)) = []
   \<or> (\<exists>name info. CHR '':'' \<notin> set name
         \<and> active_clients (shared (act w sg a sys)) =
             dir_assign name info (active_clients (shared sys)))
   \<or> (\<exists>name. active_clients (shared (act w sg a sys)) =
         dir_erase name (active_clients (shared sys)))"
proof (cases a)
  case (Accept client_sock client_addr r)
  obtain res st where reg: "register_client client_sock client_addr r (shared sys) = (res, st)"
    by (cases "register_client client_sock client_addr r (shared sys)")
  show ?thesis
  proof (cases res)
    case None
    from register_client_None [OF reg [unfolded None]] show ?thesis
      unfolding Accept by (simp add: reg None)
  next
    case (Some name)
    from register_client_Some [OF reg [unfolded Some]]
    obtain udp_port where name: "name = identity_segment (c_str (buffer_of r))"
      and st: "st = enter_client client_sock client_addr name udp_port (shared sys)"
      by blast
    have colon: "CHR '':'' \<notin> set name"
      unfolding name by (rule identity_segment_no_colon)
    show ?thesis
    proof (cases "sigpipe_cut sg (trace (shared sys)) (new_events (shared sys) st)")
      case None
      then have "active_clients (shared (act w sg a sys)) =
          dir_assign name
            \<lparr>tcp_socket = client_sock, campus_name = name,
             udp_addr = \<lparr>sin_addr = sin_addr client_addr, sin_port = htons udp_port\<rparr>\<rparr>
            (active_clients (shared sys))"
        unfolding Accept by (simp add: reg Some st enter_client_facts)
      with colon show ?thesis by blast
    next
      case cut: (Some tr)
      then show ?thesis
        unfolding Accept by (simp add: reg Some killed_def)
    qed
  qed
next
  case (Receive client_sock r)
  show ?thesis
    unfolding Receive
    by (cases "map_of (sessions sys) client_sock")
      (auto simp: route_keeps_clients close_client_facts killed_def split: option.splits)
next
  case (Unregister client_sock name)
  show ?thesis
    unfolding Unregister by (auto simp: unregister_client_facts)
qed

text \<open>
  In every state the server reaches, the list of entries is strictly ascending in the
  name, as the iteration of a \<open>std::map\<close> is, and no name contains a colon.
\<close>

lemma run_clients:
  assumes "sorted_wrt (<) (map fst (active_clients (shared sys)))"
    and "\<forall>name \<in> registered_names sys. CHR '':'' \<notin> set name"
  shows "sorted_wrt (<) (map fst (active_clients (shared (run w sg as sys))))
         \<and> (\<forall>name \<in> registered_names (run w sg as sys). CHR '':'' \<notin> set name)"
  using assms
proof (induction as arbitrary: sys)
  case Nil
  then show ?case by simp
next
  case (Cons a as)
  let ?d = "active_clients (shared sys)" and ?d' = "active_clients (shared (step w sg a sys))"
  from Cons.prems have sorted: "sorted_wrt (<) (map fst ?d)"
    and colon: "\<forall>name \<in> fst ` set ?d. CHR '':'' \<notin> set name"
    by (simp_all add: registered_names_def)
  have "?d' = ?d \<or> ?d' = []
      \<or> (\<exists>name info. CHR '':'' \<notin> set name \<and> ?d' = dir_assign name info ?d)
      \<or> (\<exists>name. ?d' = dir_erase name ?d)"
    using act_clients [of w sg a sys] by (simp add: step_def)
  then have "sorted_wrt (<) (map fst ?d') \<and> (\<forall>name \<in> fst ` set ?d'. CHR '':'' \<notin> set name)"
  proof (elim disjE exE conjE)
    assume "?d' = ?d"
    with sorted colon show ?thesis by simp
  next
    assume "?d' = []"
    then show ?thesis by simp
  next
    fix name info
    assume "CHR '':'' \<notin> set name" and "?d' = dir_assign name info ?d"
    with sorted colon show ?thesis
      by (auto simp: names_assign dir_assign_sorted)
  next
    fix name
    assume "?d' = dir_erase name ?d"
    with sorted colon show ?thesis
      by (auto simp: names_erase dir_erase_sorted)
  qed
  then have "sorted_wrt (<) (map fst (active_clients (shared (step w sg a sys))))
        \<and> (\<forall>name \<in> registered_names (step w sg a sys). CHR '':'' \<notin> set name)"
    by (simp add: registered_names_def)
  then show ?case
    using Cons.IH [of "step w sg a sys"] by simp
qed

lemma reachable_clients:
  "sorted_wrt (<) (map fst (active_clients (shared (run w sg as initial_system))))
   \<and> (\<forall>name \<in> registered_names (run w sg as initial_system). CHR '':'' \<notin> set name)"
  by (rule run_clients)
    (simp_all add: initial_system_def initial_server_def registered_names_def)

section \<open>Directed routing\<close>

text \<open>
  Claim C1, as amended. Let \<open>B\<close> be a name in \<open>active_clients\<close> other than the reserved
  word \<open>BROADCAST\<close> (a name the server has entered never contains a colon, by
  \<open>reachable_clients\<close>). When \<open>route_tcp_message\<close> gets \<open>B:content\<close> from
  sender \<open>A\<close>, it makes exactly one stream write: \<open>FROM A: content\<close> on the socket stored
  in the entry of \<open>B\<close>. It sends no datagram and leaves the map as it was. This holds whether
  or not the \<open>send\<close> call fails.
\<close>

theorem route_delivers_to_destination:
  assumes "dir_find B (active_clients st) = Some b"
    and "CHR '':'' \<notin> set B"
    and "B \<noteq> ''BROADCAST''"
  shows "stream_writes (new_events st (route_tcp_message w A (B @ '':'' @ content) st)) =
           [(tcp_socket b, ''FROM '' @ A @ '': '' @ content)]
         \<and> datagrams (new_events st (route_tcp_message w A (B @ '':'' @ content) st)) = []
         \<and> active_clients (route_tcp_message w A (B @ '':'' @ content) st) = active_clients st"
proof -
  let ?st' = "route_tcp_message w A (B @ '':'' @ content) st"
  let ?m = "''FROM '' @ A @ '': '' @ content"
  obtain line where r: "?st' = emit Unlock (emit (Console line)
      (emit (Send (tcp_socket b) ?m) (emit Lock (emit (Console (RoutingLine A B)) st))))"
    using route_hit [OF assms(2,3,1)] by blast
  have "trace ?st' =
      trace st @ [Console (RoutingLine A B), Lock, Send (tcp_socket b) ?m, Console line, Unlock]"
    unfolding r by (simp add: trace_emit)
  then have n: "new_events st ?st' =
      [Console (RoutingLine A B), Lock, Send (tcp_socket b) ?m, Console line, Unlock]"
    by (rule new_events_append)
  have s: "stream_writes (new_events st ?st') = [(tcp_socket b, ?m)]"
    unfolding n by simp
  have d: "datagrams (new_events st ?st') = []"
    unfolding n by simp
  have a: "active_clients ?st' = active_clients st"
    unfolding r by (simp add: active_clients_emit)
  from s d a show ?thesis by (intro conjI)
qed

theorem route_delivers_to_destination_witness:
  "dir_find ''B'' (active_clients two_campuses) = Some (client_entry 5 ''B'' 5002)
   \<and> CHR '':'' \<notin> set ''B'' \<and> ''B'' \<noteq> ''BROADCAST''
   \<and> stream_writes (new_events two_campuses
         (route_tcp_message no_failures ''A'' (''B'' @ '':'' @ ''hello'') two_campuses))
       = [(5, ''FROM '' @ ''A'' @ '': '' @ ''hello'')]"
proof -
  have h: "dir_find ''B'' (active_clients two_campuses) = Some (client_entry 5 ''B'' 5002)"
    by (simp add: dir_find_def two_campuses_def)
  have c: "CHR '':'' \<notin> set ''B''" "''B'' \<noteq> ''BROADCAST''"
    by simp_all
  have s: "tcp_socket (client_entry 5 ''B'' 5002) = 5"
    by (simp add: client_entry_def)
  from route_delivers_to_destination [OF h c, of no_failures "''A''" "''hello''"]
  have t: "stream_writes (new_events two_campuses
         (route_tcp_message no_failures ''A'' (''B'' @ '':'' @ ''hello'') two_campuses))
       = [(5, ''FROM '' @ ''A'' @ '': '' @ ''hello'')]"
    unfolding s by (rule conjunct1)
  show ?thesis
    by (intro conjI) (rule h c t)+
qed

text \<open>
  The claim as first stated covers every registered \<open>B\<close>. It fails for a client registered
  under the name \<open>BROADCAST\<close>: with \<open>A\<close> and \<open>BROADCAST\<close> both in the map, the message
  \<open>BROADCAST:hello\<close> from \<open>A\<close> causes no stream write at all.
\<close>

theorem route_to_campus_named_BROADCAST_counterexample:
  "dir_find ''A'' (active_clients with_broadcast_campus) = Some (client_entry 6 ''A'' 5001)
   \<and> dir_find ''BROADCAST'' (active_clients with_broadcast_campus)
       = Some (client_entry 5 ''BROADCAST'' 5002)
   \<and> stream_writes (new_events with_broadcast_campus
         (route_tcp_message no_failures ''A'' ''BROADCAST:hello'' with_broadcast_campus)) = []"
  by code_simp

section \<open>Messages that cannot be delivered\<close>

text \<open>
  Claim C6. Let a session of sender \<open>A\<close> receive a non-empty payload without a colon. Then
  \<open>route_tcp_message\<close> only prints the invalid-format line: it writes to no stream, sends no
  datagram and leaves \<open>active_clients\<close> as it was. No \<open>send\<close> is made, so nothing can end
  the process here: the receive loop goes on with the next \<open>recv\<close> results from that
  state, and after this payload alone the thread is back in \<open>recv\<close>. When the payload
  after it is \<open>B:content\<close> for a name \<open>B\<close> in the map, \<open>FROM A: content\<close> is written on the
  socket of the entry of \<open>B\<close>, and that is the only stream write of the two payloads; the
  thread is then in \<open>recv\<close> again, unless that very \<open>send\<close> raised SIGPIPE.
\<close>

theorem malformed_message_dropped:
  assumes "CHR '':'' \<notin> set payload" and "payload \<noteq> []"
  shows "(let dropped = emit (Console (InvalidFormatLine A (c_str payload))) st;
              routing = [Console (InvalidFormatLine A (c_str payload)),
                         Console (RoutingLine A B), Lock,
                         Send (tcp_socket b) (''FROM '' @ A @ '': '' @ content)]
          in route_tcp_message w A (c_str payload) st = dropped
             \<and> stream_writes (new_events st (route_tcp_message w A (c_str payload) st)) = []
             \<and> datagrams (new_events st (route_tcp_message w A (c_str payload) st)) = []
             \<and> active_clients (route_tcp_message w A (c_str payload) st) = active_clients st
             \<and> receive_loop w sg sock A (RecvData payload # rs) st =
                 receive_loop w sg sock A rs dropped
             \<and> receive_loop w sg sock A [RecvData payload] st = (Receiving, dropped)
             \<and> (c_str later = B @ '':'' @ content \<and> CHR '':'' \<notin> set B
                  \<and> B \<noteq> ''BROADCAST'' \<and> dir_find B (active_clients st) = Some b \<longrightarrow>
                 stream_writes (new_events st (snd (receive_loop w sg sock A
                     [RecvData payload, RecvData later] st)))
                   = [(tcp_socket b, ''FROM '' @ A @ '': '' @ content)]
                 \<and> fst (receive_loop w sg sock A [RecvData payload, RecvData later] st)
                   = (if sg (trace st @ routing) then Killed else Receiving)))"
proof -
  let ?line = "Console (InvalidFormatLine A (c_str payload))"
  let ?dropped = "emit ?line st"
  let ?m = "''FROM '' @ A @ '': '' @ content"
  let ?routing = "[?line, Console (RoutingLine A B), Lock, Send (tcp_socket b) ?m]"
  from assms(1) set_c_str [of payload] have "CHR '':'' \<notin> set (c_str payload)"
    by blast
  then have r: "route_tcp_message w A (c_str payload) st = ?dropped"
    by (rule route_no_separator)
  have t: "trace ?dropped = trace st @ [?line]"
    by (rule trace_emit)
  have n: "new_events st ?dropped = [?line]"
    by (rule new_events_append [OF t])
  have s: "stream_writes (new_events st ?dropped) = []"
    and d: "datagrams (new_events st ?dropped) = []"
    unfolding n by simp_all
  have a: "active_clients ?dropped = active_clients st"
    by (rule active_clients_emit)
  have l: "receive_loop w sg sock A (RecvData payload # rs) st =
      receive_loop w sg sock A rs ?dropped" for rs
    unfolding receive_loop_data [OF assms(2)] r n by simp
  have one: "receive_loop w sg sock A [RecvData payload] st = (Receiving, ?dropped)"
    unfolding l by simp
  have two: "stream_writes (new_events st (snd (receive_loop w sg sock A
          [RecvData payload, RecvData later] st))) = [(tcp_socket b, ?m)]
      \<and> fst (receive_loop w sg sock A [RecvData payload, RecvData later] st)
          = (if sg (trace st @ ?routing) then Killed else Receiving)"
    if h: "c_str later = B @ '':'' @ content \<and> CHR '':'' \<notin> set B
        \<and> B \<noteq> ''BROADCAST'' \<and> dir_find B (active_clients st) = Some b"
  proof -
    from h have p: "c_str later = B @ '':'' @ content" and B: "CHR '':'' \<notin> set B"
      "B \<noteq> ''BROADCAST''" and b: "dir_find B (active_clients ?dropped) = Some b"
      by (simp_all add: a)
    from route_hit_events [OF B b, of w A content]
    obtain line where t2: "trace (route_tcp_message w A (B @ '':'' @ content) ?dropped) =
        trace ?dropped @ [Console (RoutingLine A B), Lock, Send (tcp_socket b) ?m,
                          Console line, Unlock]"
      by blast
    have loop: "receive_loop w sg sock A [RecvData payload, RecvData later] st =
        (if sg (trace st @ ?routing)
         then (Killed, ?dropped\<lparr>trace := trace st @ ?routing\<rparr>)
         else (Receiving, route_tcp_message w A (B @ '':'' @ content) ?dropped))"
      unfolding l receive_loop_hit [OF p B b] t by simp
    show ?thesis
    proof (cases "sg (trace st @ ?routing)")
      case True
      then show ?thesis
        unfolding loop by (simp add: new_events_def)
    next
      case False
      have "new_events st (route_tcp_message w A (B @ '':'' @ content) ?dropped) =
          [?line, Console (RoutingLine A B), Lock, Send (tcp_socket b) ?m, Console line, Unlock]"
      proof (rule new_events_append)
        show "trace (route_tcp_message w A (B @ '':'' @ content) ?dropped) = trace st @
            [?line, Console (RoutingLine A B), Lock, Send (tcp_socket b) ?m, Console line, Unlock]"
          unfolding t2 t by simp
      qed
      with False show ?thesis
        unfolding loop by simp
    qed
  qed
  have two': "c_str later = B @ '':'' @ content \<and> CHR '':'' \<notin> set B
        \<and> B \<noteq> ''BROADCAST'' \<and> dir_find B (active_clients st) = Some b \<longrightarrow>
      stream_writes (new_events st (snd (receive_loop w sg sock A
          [RecvData payload, RecvData later] st))) = [(tcp_socket b, ?m)]
      \<and> fst (receive_loop w sg sock A [RecvData payload, RecvData later] st)
          = (if sg (trace st @ ?routing) then Killed else Receiving)"
    by (rule impI) (rule two)
  from r s d a l [of rs] one two' show ?thesis
    unfolding Let_def r by (intro conjI)
qed


theorem malformed_message_dropped_witness:
  "CHR '':'' \<notin> set ''hello'' \<and> ''hello'' \<noteq> []
   \<and> c_str ''B:still here'' = ''B'' @ '':'' @ ''still here''
   \<and> CHR '':'' \<notin> set ''B'' \<and> ''B'' \<noteq> ''BROADCAST''
   \<and> dir_find ''B'' (active_clients two_campuses) = Some (client_entry 5 ''B'' 5002)
   \<and> receive_loop no_failures no_sigpipe 6 ''A'' [RecvData ''hello''] two_campuses =
       (Receiving, emit (Console (InvalidFormatLine ''A'' (c_str ''hello''))) two_campuses)
   \<and> stream_writes (new_events two_campuses (snd (receive_loop no_failures no_sigpipe 6 ''A''
         [RecvData ''hello'', RecvData ''B:still here''] two_campuses)))
       = [(5, ''FROM A: still here'')]
   \<and> fst (receive_loop no_failures no_sigpipe 6 ''A''
         [RecvData ''hello'', RecvData ''B:still here''] two_campuses) = Receiving"
proof -
  have c: "CHR '':'' \<notin> set ''hello''" "''hello'' \<noteq> []"
    by simp_all
  have p: "c_str ''B:still here'' = ''B'' @ '':'' @ ''still here''"
    by (simp add: c_str_def)
  have B: "CHR '':'' \<notin> set ''B''" "''B'' \<noteq> ''BROADCAST''"
    by simp_all
  have b: "dir_find ''B'' (active_clients two_campuses) = Some (client_entry 5 ''B'' 5002)"
    by (simp add: dir_find_def two_campuses_def)
  have e: "tcp_socket (client_entry 5 ''B'' 5002) = 5"
    by (simp add: client_entry_def)
  have m: "''FROM '' @ ''A'' @ '': '' @ ''still here'' = ''FROM A: still here''"
    by simp
  note t = malformed_message_dropped [OF c, where w = no_failures and A = "''A''"
      and st = two_campuses and sg = no_sigpipe and sock = 6 and B = "''B''"
      and b = "client_entry 5 ''B'' 5002" and content = "''still here''" and rs = "[]"
      and later = "''B:still here''", unfolded Let_def e m]
  from t have 1: "receive_loop no_failures no_sigpipe 6 ''A'' [RecvData ''hello''] two_campuses =
       (Receiving, emit (Console (InvalidFormatLine ''A'' (c_str ''hello''))) two_campuses)"
    by (elim conjE)
  from t p B b have 2: "stream_writes (new_events two_campuses (snd (receive_loop no_failures
         no_sigpipe 6 ''A'' [RecvData ''hello'', RecvData ''B:still here''] two_campuses)))
       = [(5, ''FROM A: still here'')]"
    by blast
  from t p B b have "fst (receive_loop no_failures no_sigpipe 6 ''A''
         [RecvData ''hello'', RecvData ''B:still here''] two_campuses) =
       (if no_sigpipe (trace two_campuses @
            [Console (InvalidFormatLine ''A'' (c_str ''hello'')),
             Console (RoutingLine ''A'' ''B''), Lock, Send 5 ''FROM A: still here''])
        then Killed else Receiving)"
    by blast
  then have 3: "fst (receive_loop no_failures no_sigpipe 6 ''A''
         [RecvData ''hello'', RecvData ''B:still here''] two_campuses) = Receiving"
    by (simp only: no_sigpipe_def if_False)
  from c p B b 1 2 3 show ?thesis by (intro conjI)
qed





section \<open>Broadcast\<close>

text \<open>
  Claim C5, as amended. For every message, every map with \<open>N\<close> entries and every pattern of
  \<open>sendto\<close> failures, the events of \<open>send_udp_broadcast\<close> are: the lock and the header; then
  for each entry, in map order, one \<open>sendto\<close> with the message to the datagram address of
  the entry, followed by a failure line with the name of the entry exactly when that call
  failed; then the summary and the unlock. A failed call does not stop the loop.
  \<open>success_count\<close> ends as the number of calls that did not fail and \<open>fail_count\<close> as the
  number of calls that failed, so their sum is \<open>N\<close>; the failure lines name the failed
  recipients, one line each. The function writes to no stream, leaves the map as it was
  and returns nothing; the numbers it prints are \<open>N\<close> and \<open>success_count\<close>. When every call
  fails, \<open>success_count\<close> is 0 and every entry is named; when none fails, \<open>success_count\<close> is
  \<open>N\<close> and no failure line is printed.
\<close>

theorem broadcast_fan_out:
  "(let d = active_clients st;
        tr0 = trace st @ [Lock, Console (BroadcastStartLine message)];
        failed = sendto_failed w message d tr0;
        success_count = fst (broadcast_loop w message d (0, 0, tr0));
        fail_count = fst (snd (broadcast_loop w message d (0, 0, tr0)));
        new = new_events st (send_udp_broadcast w message st)
    in new = [Lock, Console (BroadcastStartLine message)]
               @ concat (map2 (recipient_events message) d failed)
               @ [Console (BroadcastSummaryLine (length d) (int (length (filter Not failed)))),
                  Unlock]
       \<and> length failed = length d
       \<and> (\<forall>i < length d.
             failed ! i =
               w (tr0 @ concat (map2 (recipient_events message) (take i d) (take i failed))
                      @ [SendTo (udp_addr (snd (d ! i))) message]))
       \<and> success_count = int (length (filter Not failed))
       \<and> fail_count = int (length (filter (\<lambda>f. f) failed))
       \<and> success_count + fail_count = int (length d)
       \<and> udp_fail_lines new =
           map (\<lambda>(entry, f). fst entry) (filter (\<lambda>(entry, f). f) (zip d failed))
       \<and> fail_count = int (length (udp_fail_lines new))
       \<and> printed_numbers new = [int (length d), success_count]
       \<and> datagrams new = map (\<lambda>(name, client). (udp_addr client, message)) d
       \<and> stream_writes new = []
       \<and> active_clients (send_udp_broadcast w message st) = d
       \<and> ((\<forall>tr. w tr) \<longrightarrow>
             success_count = 0 \<and> fail_count = int (length d)
             \<and> udp_fail_lines new = map fst d)
       \<and> ((\<forall>tr. \<not> w tr) \<longrightarrow>
             success_count = int (length d) \<and> fail_count = 0 \<and> udp_fail_lines new = []))"
proof -
  define d where "d = active_clients st"
  define tr0 where "tr0 = trace st @ [Lock, Console (BroadcastStartLine message)]"
  define failed where "failed = sendto_failed w message d tr0"
  define success_count where "success_count = fst (broadcast_loop w message d (0, 0, tr0))"
  define fail_count where "fail_count = fst (snd (broadcast_loop w message d (0, 0, tr0)))"
  define new where "new = new_events st (send_udp_broadcast w message st)"
  define blocks where "blocks = concat (map2 (recipient_events message) d failed)"
  have loop: "broadcast_loop w message d (0, 0, tr0) =
      (int (length (filter Not failed)), int (length (filter (\<lambda>f. f) failed)), tr0 @ blocks)"
    unfolding failed_def blocks_def
    using broadcast_loop_sendto_failed [of w message d 0 0 tr0] by simp
  have len: "length failed = length d"
    unfolding failed_def by (rule length_sendto_failed)
  have s: "success_count = int (length (filter Not failed))"
    and f: "fail_count = int (length (filter (\<lambda>f. f) failed))"
    unfolding success_count_def fail_count_def loop by simp_all
  have "trace (send_udp_broadcast w message st) =
      trace st @ ([Lock, Console (BroadcastStartLine message)] @ blocks
        @ [Console (BroadcastSummaryLine (length d) (int (length (filter Not failed)))), Unlock])"
  proof -
    have "trace (send_udp_broadcast w message st) =
        snd (snd (broadcast_loop w message d (0, 0, tr0)))
          @ [Console (BroadcastSummaryLine (length d)
               (fst (broadcast_loop w message d (0, 0, tr0)))), Unlock]"
      unfolding d_def tr0_def
      by (simp add: send_udp_broadcast_def Let_def split: prod.splits)
    then show ?thesis
      unfolding loop by (simp add: tr0_def)
  qed
  then have n: "new = [Lock, Console (BroadcastStartLine message)] @ blocks
        @ [Console (BroadcastSummaryLine (length d) (int (length (filter Not failed)))), Unlock]"
    unfolding new_def by (rule new_events_append)
  have nth: "\<forall>i < length d.
      failed ! i =
        w (tr0 @ concat (map2 (recipient_events message) (take i d) (take i failed))
               @ [SendTo (udp_addr (snd (d ! i))) message])"
    unfolding failed_def by (simp add: sendto_failed_nth)
  have sum: "success_count + fail_count = int (length d)"
    unfolding s f using length_filter_both [of failed] len by simp
  have lines: "udp_fail_lines new =
      map (\<lambda>(entry, f). fst entry) (filter (\<lambda>(entry, f). f) (zip d failed))"
    unfolding n blocks_def by (simp add: udp_fail_lines_append recipient_events_udp_fail_lines)
  have count: "fail_count = int (length (udp_fail_lines new))"
    unfolding lines f using length_filter_failed [of d failed] len by simp
  have printed: "printed_numbers new = [int (length d), success_count]"
    unfolding n blocks_def s
    by (simp add: printed_numbers_append recipient_events_printed_numbers)
  have dg: "datagrams new = map (\<lambda>(name, client). (udp_addr client, message)) d"
    unfolding n blocks_def
    by (simp add: datagrams_append recipient_events_datagrams len)
  have sw: "stream_writes new = []"
    unfolding n blocks_def
    by (simp add: stream_writes_append recipient_events_stream_writes)
  have ac: "active_clients (send_udp_broadcast w message st) = d"
    unfolding d_def by (rule active_clients_broadcast)
  have all: "success_count = 0 \<and> fail_count = int (length d) \<and> udp_fail_lines new = map fst d"
    if "\<forall>tr. w tr"
  proof -
    from that have "failed = replicate (length d) True"
      unfolding failed_def by (rule sendto_failed_all)
    then show ?thesis
      unfolding s f lines by (simp add: zip_replicate2 filter_map comp_def)
  qed
  have none: "success_count = int (length d) \<and> fail_count = 0 \<and> udp_fail_lines new = []"
    if "\<forall>tr. \<not> w tr"
  proof -
    from that have "failed = replicate (length d) False"
      unfolding failed_def by (rule sendto_failed_none)
    then show ?thesis
      unfolding s f lines by (simp add: zip_replicate2 filter_map comp_def)
  qed
  have all': "(\<forall>tr. w tr) \<longrightarrow>
      success_count = 0 \<and> fail_count = int (length d) \<and> udp_fail_lines new = map fst d"
    by (rule impI) (rule all)
  have none': "(\<forall>tr. \<not> w tr) \<longrightarrow>
      success_count = int (length d) \<and> fail_count = 0 \<and> udp_fail_lines new = []"
    by (rule impI) (rule none)
  note n' = n [unfolded blocks_def]
  from n' len nth s f sum lines count printed dg sw ac all' none'
  have "new = [Lock, Console (BroadcastStartLine message)]
               @ concat (map2 (recipient_events message) d failed)
               @ [Console (BroadcastSummaryLine (length d) (int (length (filter Not failed)))),
                  Unlock]
       \<and> length failed = length d
       \<and> (\<forall>i < length d.
             failed ! i =
               w (tr0 @ concat (map2 (recipient_events message) (take i d) (take i failed))
                      @ [SendTo (udp_addr (snd (d ! i))) message]))
       \<and> success_count = int (length (filter Not failed))
       \<and> fail_count = int (length (filter (\<lambda>f. f) failed))
       \<and> success_count + fail_count = int (length d)
       \<and> udp_fail_lines new =
           map (\<lambda>(entry, f). fst entry) (filter (\<lambda>(entry, f). f) (zip d failed))
       \<and> fail_count = int (length (udp_fail_lines new))
       \<and> printed_numbers new = [int (length d), success_count]
       \<and> datagrams new = map (\<lambda>(name, client). (udp_addr client, message)) d
       \<and> stream_writes new = []
       \<and> active_clients (send_udp_broadcast w message st) = d
       \<and> ((\<forall>tr. w tr) \<longrightarrow>
             success_count = 0 \<and> fail_count = int (length d)
             \<and> udp_fail_lines new = map fst d)
       \<and> ((\<forall>tr. \<not> w tr) \<longrightarrow>
             success_count = int (length d) \<and> fail_count = 0 \<and> udp_fail_lines new = [])"
    by (intro conjI)
  then show ?thesis
    unfolding Let_def d_def tr0_def failed_def success_count_def fail_count_def new_def .
qed


theorem broadcast_fan_out_witness:
  "new_events three_campuses (send_udp_broadcast only_5002 ''T'' three_campuses) =
     [Lock, Console (BroadcastStartLine ''T''),
      SendTo (udp_addr (client_entry 6 ''A'' 5001)) ''T'', Console (UdpFailLine ''A''),
      SendTo (udp_addr (client_entry 5 ''B'' 5002)) ''T'',
      SendTo (udp_addr (client_entry 7 ''C'' 5003)) ''T'', Console (UdpFailLine ''C''),
      Console (BroadcastSummaryLine 3 1), Unlock]
   \<and> (\<forall>tr. all_fail tr)
   \<and> udp_fail_lines (new_events three_campuses
         (send_udp_broadcast all_fail ''T'' three_campuses)) = [''A'', ''B'', ''C'']
   \<and> (\<forall>tr. \<not> no_failures tr)
   \<and> udp_fail_lines (new_events three_campuses
         (send_udp_broadcast no_failures ''T'' three_campuses)) = []"
proof -
  let ?d = "active_clients three_campuses"
  let ?tr0 = "trace three_campuses @ [Lock, Console (BroadcastStartLine ''T'')]"
  have e: "[Lock, Console (BroadcastStartLine ''T'')]
       @ concat (map2 (recipient_events ''T'') ?d (sendto_failed only_5002 ''T'' ?d ?tr0))
       @ [Console (BroadcastSummaryLine (length ?d)
            (int (length (filter Not (sendto_failed only_5002 ''T'' ?d ?tr0))))), Unlock]
     = [Lock, Console (BroadcastStartLine ''T''),
      SendTo (udp_addr (client_entry 6 ''A'' 5001)) ''T'', Console (UdpFailLine ''A''),
      SendTo (udp_addr (client_entry 5 ''B'' 5002)) ''T'',
      SendTo (udp_addr (client_entry 7 ''C'' 5003)) ''T'', Console (UdpFailLine ''C''),
      Console (BroadcastSummaryLine 3 1), Unlock]"
    by code_simp
  have names: "map fst ?d = [''A'', ''B'', ''C'']"
    by (simp add: three_campuses_def)
  have a: "\<forall>tr. all_fail tr"
    by (simp add: all_fail_def)
  have n: "\<forall>tr. \<not> no_failures tr"
    by (simp add: no_failures_def)
  from broadcast_fan_out [of three_campuses "''T''" only_5002]
  have 1: "new_events three_campuses (send_udp_broadcast only_5002 ''T'' three_campuses) =
     [Lock, Console (BroadcastStartLine ''T''),
      SendTo (udp_addr (client_entry 6 ''A'' 5001)) ''T'', Console (UdpFailLine ''A''),
      SendTo (udp_addr (client_entry 5 ''B'' 5002)) ''T'',
      SendTo (udp_addr (client_entry 7 ''C'' 5003)) ''T'', Console (UdpFailLine ''C''),
      Console (BroadcastSummaryLine 3 1), Unlock]"
    unfolding Let_def e by (elim conjE)
  from broadcast_fan_out [of three_campuses "''T''" all_fail] a
  have 2: "udp_fail_lines (new_events three_campuses
         (send_udp_broadcast all_fail ''T'' three_campuses)) = [''A'', ''B'', ''C'']"
    unfolding Let_def names by blast
  from broadcast_fan_out [of three_campuses "''T''" no_failures] n
  have 3: "udp_fail_lines (new_events three_campuses
         (send_udp_broadcast no_failures ''T'' three_campuses)) = []"
    unfolding Let_def by blast
  from 1 a 2 n 3 show ?thesis by (intro conjI)
qed

text \<open>
  The claim as first stated has the failed count reported as well. With three entries and
  only the datagram to port 5002 getting through, \<open>fail_count\<close> ends at 2, the failure
  lines name \<open>A\<close> and \<open>C\<close>, and the numbers printed are 3 and 1: the failed count is not
  among them.
\<close>

theorem broadcast_failed_count_not_printed_counterexample:
  "fst (snd (broadcast_loop only_5002 ''T'' (active_clients three_campuses)
               (0, 0, trace three_campuses @ [Lock, Console (BroadcastStartLine ''T'')]))) = 2
   \<and> printed_numbers (trace (send_udp_broadcast only_5002 ''T'' three_campuses)) = [3, 1]
   \<and> udp_fail_lines (trace (send_udp_broadcast only_5002 ''T'' three_campuses)) = [''A'', ''C'']
   \<and> 2 \<notin> set (printed_numbers (trace (send_udp_broadcast only_5002 ''T'' three_campuses)))"
  by code_simp

text \<open>
  Claim C10. Registration accepts the name \<open>BROADCAST\<close> like any other: the first payload
  \<open>BROADCAST:5001\<close> puts an entry under that name into the map. Yet for every sender,
  content and server state, a message \<open>BROADCAST:content\<close> is handed to
  \<open>send_udp_broadcast\<close>: it causes one datagram per entry and no stream write, so the entry
  named \<open>BROADCAST\<close> never gets a directed message.
\<close>

theorem broadcast_token_shadows_identity:
  "register_client client_sock client_addr (RecvData ''BROADCAST:5001'') st =
     (Some ''BROADCAST'', enter_client client_sock client_addr ''BROADCAST'' 5001 st)
   \<and> dir_find ''BROADCAST''
         (active_clients (enter_client client_sock client_addr ''BROADCAST'' 5001 st)) =
       Some \<lparr>tcp_socket = client_sock, campus_name = ''BROADCAST'',
             udp_addr = \<lparr>sin_addr = sin_addr client_addr, sin_port = 5001\<rparr>\<rparr>
   \<and> route_tcp_message w A (''BROADCAST:'' @ content) st =
       send_udp_broadcast w (''BROADCAST FROM '' @ A @ '': '' @ content)
         (emit (Console (RoutingLine A ''BROADCAST'')) st)
   \<and> stream_writes (new_events st (route_tcp_message w A (''BROADCAST:'' @ content) st)) = []
   \<and> datagrams (new_events st (route_tcp_message w A (''BROADCAST:'' @ content) st)) =
       map (\<lambda>(name, client). (udp_addr client, ''BROADCAST FROM '' @ A @ '': '' @ content))
         (active_clients st)"
proof -
  let ?m = "''BROADCAST FROM '' @ A @ '': '' @ content"
  let ?st1 = "emit (Console (RoutingLine A ''BROADCAST'')) st"
  let ?st' = "route_tcp_message w A (''BROADCAST:'' @ content) st"
  have s: "stoi ''5001'' = Inr 5001"
    by code_simp
  have 1: "register_client client_sock client_addr (RecvData ''BROADCAST:5001'') st =
     (Some ''BROADCAST'', enter_client client_sock client_addr ''BROADCAST'' 5001 st)"
    by (simp add: register_client_def bytes_received_def buffer_of_def c_str_def
        substr_def substr_from_def s)
  have 2: "dir_find ''BROADCAST''
         (active_clients (enter_client client_sock client_addr ''BROADCAST'' 5001 st)) =
       Some \<lparr>tcp_socket = client_sock, campus_name = ''BROADCAST'',
             udp_addr = \<lparr>sin_addr = sin_addr client_addr, sin_port = 5001\<rparr>\<rparr>"
    by (simp add: enter_client_def active_clients_emit dir_find_assign htons_def emit_def)
  have 3: "?st' = send_udp_broadcast w ?m ?st1"
    by (rule route_broadcast)
  from send_udp_broadcast_lock [of w ?m ?st1]
  obtain evs where evs: "trace (send_udp_broadcast w ?m ?st1) = trace ?st1 @ evs"
    "stream_writes evs = []"
    "datagrams evs = map (\<lambda>(name, client). (udp_addr client, ?m)) (active_clients ?st1)"
    by blast
  have "trace ?st' = trace st @ (Console (RoutingLine A ''BROADCAST'') # evs)"
    unfolding 3 evs(1) by (simp add: trace_emit)
  then have n: "new_events st ?st' = Console (RoutingLine A ''BROADCAST'') # evs"
    by (rule new_events_append)
  have 4: "stream_writes (new_events st ?st') = []"
    unfolding n using evs(2) by simp
  have 5: "datagrams (new_events st ?st') =
      map (\<lambda>(name, client). (udp_addr client, ?m)) (active_clients st)"
    unfolding n using evs(3) by (simp add: active_clients_emit)
  from 1 2 3 4 5 show ?thesis by (intro conjI)
qed

section \<open>The mutex and network calls\<close>

text \<open>
  Claim C8, as amended. Every \<open>send\<close> and \<open>sendto\<close> of \<open>send_udp_broadcast\<close> and of
  \<open>route_tcp_message\<close> is made while \<open>clients_mutex\<close> is held: the \<open>lock_guard\<close> of
  \<open>send_udp_broadcast\<close> lives from its first statement to its return, and the one of
  \<open>route_tcp_message\<close> from before the lookup to the return, so the datagram sends, the
  delivery and the not-active notice all fall inside. The mutex is free again when either
  function returns.
\<close>

theorem network_io_under_lock:
  "io_all_locked False (new_events st (send_udp_broadcast w message st))
   \<and> held_after False (new_events st (send_udp_broadcast w message st)) = False
   \<and> io_all_locked False (new_events st (route_tcp_message w A full_message st))
   \<and> held_after False (new_events st (route_tcp_message w A full_message st)) = False"
proof -
  from send_udp_broadcast_lock [of w message st]
  obtain evs where b: "trace (send_udp_broadcast w message st) = trace st @ evs"
    "io_all_locked False evs" "held_after False evs = False"
    by blast
  from route_tcp_message_lock [of w A full_message st]
  obtain evs' where r: "trace (route_tcp_message w A full_message st) = trace st @ evs'"
    "io_all_locked False evs'" "held_after False evs' = False"
    by blast
  from b(2,3) r(2,3) show ?thesis
    unfolding new_events_append [OF b(1)] new_events_append [OF r(1)] by (intro conjI)
qed

text \<open>
  The claim as first stated has no network call under the mutex. Routing \<open>B:hello\<close> to the
  registered \<open>B\<close> sends between \<open>Lock\<close> and \<open>Unlock\<close>, and so does a broadcast to two
  entries.
\<close>

theorem io_while_lock_held_counterexample:
  "new_events two_campuses (route_tcp_message no_failures ''A'' ''B:hello'' two_campuses) =
     [Console (RoutingLine ''A'' ''B''), Lock, Send 5 ''FROM A: hello'',
      Console (RoutedLine ''B''), Unlock]
   \<and> io_while_locked False
       (new_events two_campuses (route_tcp_message no_failures ''A'' ''B:hello'' two_campuses))
   \<and> io_while_locked False
       (new_events two_campuses (send_udp_broadcast no_failures ''T'' two_campuses))"
  by code_simp

section \<open>Registration\<close>

text \<open>
  Claim C2, as amended. The registration read takes the first payload up to its first NUL
  byte. It fails exactly when the payload is empty, or that text has no colon, or
  \<open>std::stoi\<close> throws on the text after the first colon. On failure the map is unchanged,
  nothing is written to the stream and the socket is closed. Otherwise the name before the
  first colon is entered with this socket and the parsed port, and the welcome message is
  sent on the stream. \<open>std::stoi\<close> accepts whatever starts, after white space and one
  optional sign, with a decimal digit and fits an \<open>int\<close>: the port need not be positive,
  and characters after the digits are ignored.
\<close>

theorem registration_outcome:
  "(fst (register_client sock addr (RecvData payload) st) = None \<longleftrightarrow>
      payload = [] \<or> CHR '':'' \<notin> set (c_str payload)
      \<or> isl (stoi (port_segment (c_str payload))))
   \<and> (if fst (register_client sock addr (RecvData payload) st) = None
       then active_clients (snd (register_client sock addr (RecvData payload) st))
              = active_clients st
            \<and> stream_writes
                (new_events st (snd (register_client sock addr (RecvData payload) st))) = []
            \<and> closes
                (new_events st (snd (register_client sock addr (RecvData payload) st))) = [sock]
       else fst (register_client sock addr (RecvData payload) st)
              = Some (identity_segment (c_str payload))
            \<and> dir_find (identity_segment (c_str payload))
                (active_clients (snd (register_client sock addr (RecvData payload) st)))
              = Some \<lparr>tcp_socket = sock, campus_name = identity_segment (c_str payload),
                      udp_addr = \<lparr>sin_addr = sin_addr addr,
                                  sin_port = htons (projr (stoi (port_segment (c_str payload))))\<rparr>\<rparr>
            \<and> stream_writes
                (new_events st (snd (register_client sock addr (RecvData payload) st)))
              = [(sock, welcome_msg (identity_segment (c_str payload)))]
            \<and> closes
                (new_events st (snd (register_client sock addr (RecvData payload) st))) = [])"
proof -
  let ?R = "register_client sock addr (RecvData payload) st"
  let ?name = "identity_segment (c_str payload)"
  consider (unparsed) "payload = [] \<or> CHR '':'' \<notin> set (c_str payload)"
    | (bad_port) e where "\<not> (payload = [] \<or> CHR '':'' \<notin> set (c_str payload))"
        "stoi (port_segment (c_str payload)) = Inl e"
    | (good) udp_port where "\<not> (payload = [] \<or> CHR '':'' \<notin> set (c_str payload))"
        "stoi (port_segment (c_str payload)) = Inr udp_port"
    by (cases "stoi (port_segment (c_str payload))") blast+
  then show ?thesis
  proof cases
    case unparsed
    then have r: "?R = close_unregistered sock st"
      by (simp add: register_client_cases)
    have n: "new_events st (snd ?R) = [Console RegisterFailedLine, Close sock]"
      unfolding r by (rule new_events_append) (rule close_unregistered_facts)
    have "fst ?R = None" "active_clients (snd ?R) = active_clients st"
      unfolding r by (rule close_unregistered_facts)+
    moreover have "stream_writes (new_events st (snd ?R)) = []"
      "closes (new_events st (snd ?R)) = [sock]"
      unfolding n by simp_all
    ultimately show ?thesis using unparsed by auto
  next
    case bad_port
    let ?st1 = "emit (Console InvalidPortLine) st"
    from bad_port have r: "?R = close_unregistered sock ?st1"
      by (simp add: register_client_cases)
    have "trace (snd (close_unregistered sock ?st1)) =
        trace st @ [Console InvalidPortLine, Console RegisterFailedLine, Close sock]"
      by (simp add: close_unregistered_facts trace_emit)
    then have n: "new_events st (snd ?R) =
        [Console InvalidPortLine, Console RegisterFailedLine, Close sock]"
      unfolding r by (rule new_events_append)
    have "fst ?R = None" "active_clients (snd ?R) = active_clients st"
      unfolding r by (simp_all add: close_unregistered_facts active_clients_emit)
    moreover have "stream_writes (new_events st (snd ?R)) = []"
      "closes (new_events st (snd ?R)) = [sock]"
      unfolding n by simp_all
    ultimately show ?thesis using bad_port(2) by simp
  next
    case good
    from good have r: "?R = (Some ?name, enter_client sock addr ?name udp_port st)"
      by (simp add: register_client_cases)
    have n: "new_events st (snd ?R) =
        [Lock, Console (RegistrationLine ?name udp_port), Send sock (welcome_msg ?name), Unlock]"
      unfolding r snd_conv by (rule new_events_append) (rule enter_client_facts)
    have "fst ?R = Some ?name"
      unfolding r by simp
    moreover have "dir_find ?name (active_clients (snd ?R)) =
        Some \<lparr>tcp_socket = sock, campus_name = ?name,
              udp_addr = \<lparr>sin_addr = sin_addr addr, sin_port = htons udp_port\<rparr>\<rparr>"
      unfolding r snd_conv by (simp add: enter_client_facts dir_find_assign)
    moreover have "stream_writes (new_events st (snd ?R)) = [(sock, welcome_msg ?name)]"
      "closes (new_events st (snd ?R)) = []"
      unfolding n by (rule welcome_only)+
    ultimately show ?thesis using good by simp
  qed
qed


theorem registration_outcome_witness:
  "\<not> (''A:5001'' = [] \<or> CHR '':'' \<notin> set (c_str ''A:5001'')
        \<or> isl (stoi (port_segment (c_str ''A:5001''))))
   \<and> fst (register_client 5 peer (RecvData ''A:5001'') initial_server) = Some ''A''
   \<and> stream_writes (new_events initial_server
         (snd (register_client 5 peer (RecvData ''A:5001'') initial_server)))
       = [(5, ''SERVER: Welcome, A! TCP and UDP services active.'')]"
proof -
  have a: "c_str ''A:5001'' = ''A:5001''"
    by (simp add: c_str_def)
  have b: "identity_segment ''A:5001'' = ''A''" "port_segment ''A:5001'' = ''5001''"
    by (simp_all add: identity_segment_def port_segment_def)
  have s: "stoi ''5001'' = Inr 5001"
    by code_simp
  have h: "\<not> (''A:5001'' = [] \<or> CHR '':'' \<notin> set (c_str ''A:5001'')
        \<or> isl (stoi (port_segment (c_str ''A:5001''))))"
    unfolding a b s by simp
  note t = registration_outcome [of 5 peer "''A:5001''" initial_server]
  from t h have n: "fst (register_client 5 peer (RecvData ''A:5001'') initial_server) \<noteq> None"
    by blast
  from t have "fst (register_client 5 peer (RecvData ''A:5001'') initial_server)
              = Some (identity_segment (c_str ''A:5001''))
       \<and> stream_writes (new_events initial_server
           (snd (register_client 5 peer (RecvData ''A:5001'') initial_server)))
         = [(5, welcome_msg (identity_segment (c_str ''A:5001'')))]"
    unfolding if_not_P [OF n] by (elim conjE) (intro conjI)
  then have "fst (register_client 5 peer (RecvData ''A:5001'') initial_server) = Some ''A''
       \<and> stream_writes (new_events initial_server
           (snd (register_client 5 peer (RecvData ''A:5001'') initial_server)))
         = [(5, ''SERVER: Welcome, A! TCP and UDP services active.'')]"
    unfolding a b welcome_msg_def by simp
  with h show ?thesis by (intro conjI) (elim conjE, assumption)+
qed

text \<open>
  The claim as first stated has registration fail for every port segment that is not a
  valid positive integer. The payloads \<open>A:-5\<close>, \<open>A:0\<close> and \<open>A: 12abc\<close> all register \<open>A\<close>;
  the first one is entered with the parsed port \<open>-5\<close>.
\<close>

theorem port_not_positive_registers_counterexample:
  "fst (register_client 5 peer (RecvData ''A:-5'') initial_server) = Some ''A''
   \<and> dir_find ''A'' (active_clients (snd (register_client 5 peer (RecvData ''A:-5'')
         initial_server))) = Some (client_entry 5 ''A'' (- 5))
   \<and> fst (register_client 5 peer (RecvData ''A:0'') initial_server) = Some ''A''
   \<and> fst (register_client 5 peer (RecvData ''A: 12abc'') initial_server) = Some ''A''"
  by code_simp

text \<open>
  Claim C9, as amended. An identity accepted by the registration read is the part of the
  first payload before its first colon: it contains no colon and no NUL byte, and it is
  entered in the map under that name. It may be empty: a first payload that starts with
  the colon, followed by a port segment that \<open>std::stoi\<close> accepts, is entered under the
  empty name.
\<close>

theorem accepted_identity_is_first_segment:
  "(register_client sock addr r st = (Some name, st') \<longrightarrow>
      name = identity_segment (c_str (buffer_of r))
      \<and> CHR '':'' \<notin> set name \<and> CHR 0x00 \<notin> set name
      \<and> map_option campus_name (dir_find name (active_clients st')) = Some name)
   \<and> (stoi p = Inr udp_port \<and> CHR 0x00 \<notin> set p \<longrightarrow>
        register_client sock addr (RecvData (CHR '':'' # p)) st =
          (Some [], enter_client sock addr [] udp_port st)
        \<and> map_option tcp_socket
            (dir_find [] (active_clients (enter_client sock addr [] udp_port st))) = Some sock)"
proof (intro conjI impI)
  assume reg: "register_client sock addr r st = (Some name, st')"
  have "bytes_received r > 0"
  proof (rule ccontr)
    assume "\<not> bytes_received r > 0"
    then have "register_client sock addr r st = close_unregistered sock st"
      by (simp add: register_client_def)
    with reg show False by (simp add: close_unregistered_def)
  qed
  then obtain payload where r: "r = RecvData payload"
    by (cases r) (simp_all add: bytes_received_def)
  let ?seg = "identity_segment (c_str payload)"
  from reg have c: "register_client sock addr (RecvData payload) st = (Some name, st')"
    unfolding r .
  have "\<exists>udp_port. name = ?seg \<and> st' = enter_client sock addr ?seg udp_port st"
    using c unfolding register_client_cases
    by (auto simp: close_unregistered_def split: if_splits sum.splits)
  then obtain udp_port where name: "name = ?seg"
    and st': "st' = enter_client sock addr ?seg udp_port st"
    by blast
  show "name = identity_segment (c_str (buffer_of r))"
    unfolding name r by (simp add: buffer_of_def)
  show "CHR '':'' \<notin> set name"
    unfolding name by (rule identity_segment_no_colon)
  show "CHR 0x00 \<notin> set name"
    unfolding name using identity_segment_subset [of "c_str payload"] c_str_no_NUL [of payload]
    by blast
  show "map_option campus_name (dir_find name (active_clients st')) = Some name"
    unfolding st' name by (simp add: enter_client_facts dir_find_assign)
next
  assume p: "stoi p = Inr udp_port \<and> CHR 0x00 \<notin> set p"
  then have c: "c_str (CHR '':'' # p) = CHR '':'' # p"
    by (auto simp: c_str_def)
  have seg: "identity_segment (CHR '':'' # p) = []" "port_segment (CHR '':'' # p) = p"
    by (simp_all add: identity_segment_def port_segment_def)
  show "register_client sock addr (RecvData (CHR '':'' # p)) st =
          (Some [], enter_client sock addr [] udp_port st)"
    unfolding register_client_cases c seg using p by simp
  show "map_option tcp_socket
          (dir_find [] (active_clients (enter_client sock addr [] udp_port st))) = Some sock"
    by (simp add: enter_client_facts dir_find_assign)
qed

theorem accepted_identity_is_first_segment_witness:
  "register_client 5 peer (RecvData '':5000'') initial_server =
      (Some [], enter_client 5 peer [] 5000 initial_server)
   \<and> stoi ''5000'' = Inr 5000 \<and> CHR 0x00 \<notin> set ''5000''
   \<and> [] = identity_segment (c_str (buffer_of (RecvData '':5000'')))
   \<and> map_option tcp_socket
        (dir_find [] (active_clients (enter_client 5 peer [] 5000 initial_server))) = Some 5"
proof -
  have s: "stoi ''5000'' = Inr 5000 \<and> CHR 0x00 \<notin> set ''5000''"
    by code_simp
  note t = accepted_identity_is_first_segment [of 5 peer "RecvData '':5000''" initial_server
      "[]" "enter_client 5 peer [] 5000 initial_server" "''5000''" 5000]
  from t s have 1: "register_client 5 peer (RecvData '':5000'') initial_server =
      (Some [], enter_client 5 peer [] 5000 initial_server)"
    and 2: "map_option tcp_socket
        (dir_find [] (active_clients (enter_client 5 peer [] 5000 initial_server))) = Some 5"
    by blast+
  from t 1 have 3: "[] = identity_segment (c_str (buffer_of (RecvData '':5000'')))"
    by blast
  from 1 s 3 2 show ?thesis by (intro conjI) (elim conjE, assumption)+
qed

text \<open>
  The claim as first stated has every accepted identity non-empty. The first payload
  \<open>:5000\<close> registers the empty name.
\<close>

theorem empty_identity_registers_counterexample:
  "fst (register_client 5 peer (RecvData '':5000'') initial_server) = Some []
   \<and> dir_find [] (active_clients (snd (register_client 5 peer (RecvData '':5000'')
         initial_server))) = Some (client_entry 5 [] 5000)"
  by code_simp

text \<open>
  Claim C4, as amended. When a registration names an identity that is already in the map,
  the new entry replaces the old one: the name now maps to the new socket and address,
  every other name maps to what it did, and the set of names is the same. Nothing is
  closed, and the only stream write is the welcome message on the new socket: the
  connection that registered the name before is neither told nor closed, and its thread
  keeps running.
\<close>

theorem duplicate_registration_overwrites:
  assumes "register_client sock addr r st = (Some name, st')"
    and "dir_find name (active_clients st) = Some old"
  shows "dir_find name (active_clients st') =
           Some \<lparr>tcp_socket = sock, campus_name = name,
                 udp_addr = \<lparr>sin_addr = sin_addr addr,
                             sin_port = htons (projr (stoi (port_segment
                                          (c_str (buffer_of r)))))\<rparr>\<rparr>
         \<and> (\<forall>k. k \<noteq> name \<longrightarrow>
               dir_find k (active_clients st') = dir_find k (active_clients st))
         \<and> set (map fst (active_clients st')) = set (map fst (active_clients st))
         \<and> closes (new_events st st') = []
         \<and> stream_writes (new_events st st') = [(sock, welcome_msg name)]"
proof -
  from register_client_Some [OF assms(1)]
  obtain udp_port where port: "stoi (port_segment (c_str (buffer_of r))) = Inr udp_port"
    and st': "st' = enter_client sock addr name udp_port st"
    by blast
  have n: "new_events st st' =
      [Lock, Console (RegistrationLine name udp_port), Send sock (welcome_msg name), Unlock]"
    unfolding st' by (rule new_events_append) (rule enter_client_facts)
  have 1: "dir_find name (active_clients st') =
           Some \<lparr>tcp_socket = sock, campus_name = name,
                 udp_addr = \<lparr>sin_addr = sin_addr addr,
                             sin_port = htons (projr (stoi (port_segment
                                          (c_str (buffer_of r)))))\<rparr>\<rparr>"
    unfolding st' port by (simp add: enter_client_facts dir_find_assign)
  have 2: "\<forall>k. k \<noteq> name \<longrightarrow>
               dir_find k (active_clients st') = dir_find k (active_clients st)"
    unfolding st' by (simp add: enter_client_facts dir_find_assign)
  have 3: "set (map fst (active_clients st')) = set (map fst (active_clients st))"
    unfolding st' using dir_find_name [OF assms(2)]
    by (simp add: enter_client_facts names_assign insert_absorb)
  have 4: "closes (new_events st st') = []"
    and 5: "stream_writes (new_events st st') = [(sock, welcome_msg name)]"
    unfolding n by (rule welcome_only)+
  from 1 2 3 4 5 show ?thesis by (intro conjI)
qed

theorem duplicate_registration_overwrites_witness:
  "register_client 6 peer (RecvData ''A:5002'') first_A = (Some ''A'', second_A)
   \<and> dir_find ''A'' (active_clients first_A) = Some (client_entry 5 ''A'' 5001)
   \<and> dir_find ''A'' (active_clients second_A) = Some (client_entry 6 ''A'' 5002)
   \<and> closes (new_events first_A second_A) = []"
proof -
  have r: "register_client 6 peer (RecvData ''A:5002'') first_A = (Some ''A'', second_A)"
    by code_simp
  have o: "dir_find ''A'' (active_clients first_A) = Some (client_entry 5 ''A'' 5001)"
    by code_simp
  have e: "\<lparr>tcp_socket = 6, campus_name = ''A'',
           udp_addr = \<lparr>sin_addr = sin_addr peer,
                       sin_port = htons (projr (stoi (port_segment
                                    (c_str (buffer_of (RecvData ''A:5002''))))))\<rparr>\<rparr>
         = client_entry 6 ''A'' 5002"
    by code_simp
  note t = duplicate_registration_overwrites [OF r o]
  from t have 1: "dir_find ''A'' (active_clients second_A) = Some (client_entry 6 ''A'' 5002)"
    unfolding e by (elim conjE)
  from t have 2: "closes (new_events first_A second_A) = []"
    by (elim conjE)
  from r o 1 2 show ?thesis by (intro conjI)
qed

text \<open>
  The claim as first stated has the second registration either rejected, with the map
  unchanged, or the superseded handle closed. With \<open>A\<close> registered on socket 5, a second
  registration of \<open>A\<close> on socket 6 is accepted, changes the map, and no socket is closed.
\<close>

theorem duplicate_registration_counterexample:
  "dir_find ''A'' (active_clients first_A) = Some (client_entry 5 ''A'' 5001)
   \<and> fst (register_client 6 peer (RecvData ''A:5002'') first_A) = Some ''A''
   \<and> active_clients second_A \<noteq> active_clients first_A
   \<and> dir_find ''A'' (active_clients second_A) = Some (client_entry 6 ''A'' 5002)
   \<and> closes (trace second_A) = []
   \<and> stream_writes (new_events first_A second_A) =
       [(6, ''SERVER: Welcome, A! TCP and UDP services active.'')]"
  by code_simp

section \<open>Sessions and the Directory\<close>

text \<open>
  Claim C3, as amended. Take any run of the server from its start in which no
  registration names an identity held by a thread that is in its receive loop or has not
  finished its cleanup, and no accepted socket is held by a thread in its loop. At every
  point of the run the names in the map are exactly the names of the threads that are in
  their loop (the active sessions) or have closed their socket and not yet erased their
  entry, and the entry of each holds its socket; when no thread is between its close and
  its erase, the names in the map are exactly the names of the active sessions. When the
  read of a session returns end of stream or an error, its thread prints and closes the
  socket, once, without touching the map; later, under the mutex, it erases the entry
  under its name, once, and leaves every other entry alone. The cleanup writes to no
  stream.
\<close>

theorem directory_matches_sessions:
  "(unique_names_run w sg as initial_system \<longrightarrow>
      consistent (run w sg as initial_system)
      \<and> registered_names (run w sg as initial_system) =
          session_names (run w sg as initial_system)
            \<union> closing_names (run w sg as initial_system)
      \<and> (\<forall>fd n. (fd, n) \<in> set (sessions (run w sg as initial_system)) \<longrightarrow>
             map_option tcp_socket
               (dir_find n (active_clients (shared (run w sg as initial_system)))) = Some fd)
      \<and> (closing (run w sg as initial_system) = [] \<longrightarrow>
             registered_names (run w sg as initial_system) =
               session_names (run w sg as initial_system)))
   \<and> step w sg (Accept client_sock client_addr r) sys =
       (if alive sys
        then (case register_client client_sock client_addr r (shared sys) of
                (None, st1) \<Rightarrow> sys\<lparr>shared := st1\<rparr>
              | (Some n, st1) \<Rightarrow>
                  (case sigpipe_cut sg (trace (shared sys)) (new_events (shared sys) st1) of
                     Some tr \<Rightarrow> killed tr
                   | None \<Rightarrow>
                       sys\<lparr>shared := st1, sessions := sessions sys @ [(client_sock, n)]\<rparr>))
        else sys)
   \<and> step w sg (Receive client_sock (RecvData (c # cs))) sys =
       (if alive sys
        then (case map_of (sessions sys) client_sock of
                None \<Rightarrow> sys
              | Some n \<Rightarrow>
                  (case sigpipe_cut sg (trace (shared sys))
                          (new_events (shared sys)
                             (route_tcp_message w n (c_str (c # cs)) (shared sys))) of
                     Some tr \<Rightarrow> killed tr
                   | None \<Rightarrow>
                       sys\<lparr>shared := route_tcp_message w n (c_str (c # cs)) (shared sys)\<rparr>))
        else sys)
   \<and> step w sg (Receive client_sock RecvEOF) sys =
       (if alive sys
        then (case map_of (sessions sys) client_sock of
                None \<Rightarrow> sys
              | Some n \<Rightarrow>
                  sys\<lparr>shared := close_client client_sock n RecvEOF (shared sys),
                      sessions := filter (\<lambda>(fd, n). fd \<noteq> client_sock) (sessions sys),
                      closing := closing sys @ [(client_sock, n)]\<rparr>)
        else sys)
   \<and> step w sg (Receive client_sock RecvError) sys =
       (if alive sys
        then (case map_of (sessions sys) client_sock of
                None \<Rightarrow> sys
              | Some n \<Rightarrow>
                  sys\<lparr>shared := close_client client_sock n RecvError (shared sys),
                      sessions := filter (\<lambda>(fd, n). fd \<noteq> client_sock) (sessions sys),
                      closing := closing sys @ [(client_sock, n)]\<rparr>)
        else sys)
   \<and> step w sg (Unregister client_sock name) sys =
       (if alive sys \<and> (client_sock, name) \<in> set (closing sys)
        then sys\<lparr>shared := unregister_client name (shared sys),
                 closing := remove1 (client_sock, name) (closing sys)\<rparr>
        else sys)
   \<and> active_clients (close_client client_sock name r st) = active_clients st
   \<and> closes (new_events st (close_client client_sock name r st)) = [client_sock]
   \<and> stream_writes (new_events st (close_client client_sock name r st)) = []
   \<and> dir_find name (active_clients (unregister_client name st)) = None
   \<and> (\<forall>k. k \<noteq> name \<longrightarrow>
         dir_find k (active_clients (unregister_client name st))
           = dir_find k (active_clients st))
   \<and> new_events st (unregister_client name st) = [Lock, Console (RemovedLine name), Unlock]
   \<and> disconnect_client client_sock name r st =
       unregister_client name (close_client client_sock name r st)"
proof -
  let ?sys = "run w sg as initial_system"
  have 1: "unique_names_run w sg as initial_system \<longrightarrow>
      consistent ?sys
      \<and> registered_names ?sys = session_names ?sys \<union> closing_names ?sys
      \<and> (\<forall>fd n. (fd, n) \<in> set (sessions ?sys) \<longrightarrow>
             map_option tcp_socket (dir_find n (active_clients (shared ?sys))) = Some fd)
      \<and> (closing ?sys = [] \<longrightarrow> registered_names ?sys = session_names ?sys)"
  proof
    assume "unique_names_run w sg as initial_system"
    with consistent_initial have c: "consistent ?sys"
      by (rule consistent_run)
    then have "registered_names ?sys = session_names ?sys \<union> closing_names ?sys"
      by (simp add: consistent_def)
    moreover have "\<forall>fd n. (fd, n) \<in> set (sessions ?sys) \<longrightarrow>
        map_option tcp_socket (dir_find n (active_clients (shared ?sys))) = Some fd"
      using consistent_entries [OF c] by simp
    moreover have "closing ?sys = [] \<longrightarrow> registered_names ?sys = session_names ?sys"
      using consistent_no_closing [OF c] by blast
    ultimately show "consistent ?sys
      \<and> registered_names ?sys = session_names ?sys \<union> closing_names ?sys
      \<and> (\<forall>fd n. (fd, n) \<in> set (sessions ?sys) \<longrightarrow>
             map_option tcp_socket (dir_find n (active_clients (shared ?sys))) = Some fd)
      \<and> (closing ?sys = [] \<longrightarrow> registered_names ?sys = session_names ?sys)"
      using c by (intro conjI)
  qed
  have pin_accept: "step w sg (Accept client_sock client_addr r) sys =
       (if alive sys
        then (case register_client client_sock client_addr r (shared sys) of
                (None, st1) \<Rightarrow> sys\<lparr>shared := st1\<rparr>
              | (Some n, st1) \<Rightarrow>
                  (case sigpipe_cut sg (trace (shared sys)) (new_events (shared sys) st1) of
                     Some tr \<Rightarrow> killed tr
                   | None \<Rightarrow>
                       sys\<lparr>shared := st1, sessions := sessions sys @ [(client_sock, n)]\<rparr>))
        else sys)"
    by (simp add: step_def)
  have pin_data: "step w sg (Receive client_sock (RecvData (c # cs))) sys =
       (if alive sys
        then (case map_of (sessions sys) client_sock of
                None \<Rightarrow> sys
              | Some n \<Rightarrow>
                  (case sigpipe_cut sg (trace (shared sys))
                          (new_events (shared sys)
                             (route_tcp_message w n (c_str (c # cs)) (shared sys))) of
                     Some tr \<Rightarrow> killed tr
                   | None \<Rightarrow>
                       sys\<lparr>shared := route_tcp_message w n (c_str (c # cs)) (shared sys)\<rparr>))
        else sys)"
    by (simp add: step_def bytes_received_def buffer_of_def split: option.splits)
  have 2: "step w sg (Receive client_sock RecvEOF) sys =
       (if alive sys
        then (case map_of (sessions sys) client_sock of
                None \<Rightarrow> sys
              | Some n \<Rightarrow>
                  sys\<lparr>shared := close_client client_sock n RecvEOF (shared sys),
                      sessions := filter (\<lambda>(fd, n). fd \<noteq> client_sock) (sessions sys),
                      closing := closing sys @ [(client_sock, n)]\<rparr>)
        else sys)"
    by (simp add: step_def bytes_received_def split: option.splits)
  have 3: "step w sg (Receive client_sock RecvError) sys =
       (if alive sys
        then (case map_of (sessions sys) client_sock of
                None \<Rightarrow> sys
              | Some n \<Rightarrow>
                  sys\<lparr>shared := close_client client_sock n RecvError (shared sys),
                      sessions := filter (\<lambda>(fd, n). fd \<noteq> client_sock) (sessions sys),
                      closing := closing sys @ [(client_sock, n)]\<rparr>)
        else sys)"
    by (simp add: step_def bytes_received_def split: option.splits)
  have 4: "step w sg (Unregister client_sock name) sys =
       (if alive sys \<and> (client_sock, name) \<in> set (closing sys)
        then sys\<lparr>shared := unregister_client name (shared sys),
                 closing := remove1 (client_sock, name) (closing sys)\<rparr>
        else sys)"
    by (simp add: step_def)
  from close_client_facts(2) [of client_sock name r st]
  obtain line where "trace (close_client client_sock name r st) =
      trace st @ [Console line, Close client_sock]"
    by blast
  then have n: "new_events st (close_client client_sock name r st) =
      [Console line, Close client_sock]"
    by (rule new_events_append)
  have 5: "active_clients (close_client client_sock name r st) = active_clients st"
    by (rule close_client_facts)
  have 6: "closes (new_events st (close_client client_sock name r st)) = [client_sock]"
    and 7: "stream_writes (new_events st (close_client client_sock name r st)) = []"
    unfolding n by simp_all
  have 8: "dir_find name (active_clients (unregister_client name st)) = None"
    by (simp add: unregister_client_facts dir_find_erase)
  have 9: "\<forall>k. k \<noteq> name \<longrightarrow>
         dir_find k (active_clients (unregister_client name st))
           = dir_find k (active_clients st)"
    by (simp add: unregister_client_facts dir_find_erase)
  have 10: "new_events st (unregister_client name st) =
      [Lock, Console (RemovedLine name), Unlock]"
    by (rule new_events_append) (rule unregister_client_facts)
  have 11: "disconnect_client client_sock name r st =
       unregister_client name (close_client client_sock name r st)"
    by (rule disconnect_client_def)
  from 1 pin_accept pin_data 2 3 4 5 6 7 8 9 10 11 show ?thesis by (intro conjI)
qed

theorem directory_matches_sessions_witness:
  "unique_names_run no_failures no_sigpipe orderly_actions initial_system
   \<and> closing (run no_failures no_sigpipe orderly_actions initial_system) = []
   \<and> sessions (run no_failures no_sigpipe orderly_actions initial_system) = [(6, ''B'')]
   \<and> consistent (run no_failures no_sigpipe orderly_actions initial_system)
   \<and> registered_names (run no_failures no_sigpipe orderly_actions initial_system) =
       session_names (run no_failures no_sigpipe orderly_actions initial_system)
   \<and> map_option tcp_socket (dir_find ''B'' (active_clients (shared
         (run no_failures no_sigpipe orderly_actions initial_system)))) = Some 6"
proof -
  let ?sys = "run no_failures no_sigpipe orderly_actions initial_system"
  have u: "unique_names_run no_failures no_sigpipe orderly_actions initial_system"
    by code_simp
  have c: "closing ?sys = []"
    by code_simp
  have s: "sessions ?sys = [(6, ''B'')]"
    by code_simp
  then have m: "(6, ''B'') \<in> set (sessions ?sys)"
    by simp
  note t = directory_matches_sessions [of no_failures no_sigpipe orderly_actions]
  from t u have 1: "consistent ?sys"
    by blast
  from t u c have 2: "registered_names ?sys = session_names ?sys"
    by blast
  from t u m have 3: "map_option tcp_socket (dir_find ''B'' (active_clients (shared ?sys))) = Some 6"
    by blast
  from u c s 1 2 3 show ?thesis by (intro conjI)
qed

text \<open>
  The claim as first stated has an entry exactly for the active sessions at every instant
  and in every run. In \<open>reuse_actions\<close> names are unique and sockets fresh, yet after the
  close of socket 5 the entry of \<open>A\<close> is still in the map while its session is over; the
  descriptor 5 is given to the new connection of \<open>C\<close>, and the message of \<open>B\<close> for \<open>A\<close> is
  written on it. In \<open>duplicate_actions\<close> two connections register \<open>A\<close> and the first one
  disconnects: its cleanup erases the entry of the second, whose session on socket 6 is
  still active with the map empty.
\<close>

theorem stale_entry_and_duplicate_name_counterexample:
  "unique_names_run no_failures no_sigpipe reuse_actions initial_system
   \<and> sessions (run no_failures no_sigpipe reuse_actions initial_system) = [(6, ''B''), (5, ''C'')]
   \<and> closing (run no_failures no_sigpipe reuse_actions initial_system) = [(5, ''A'')]
   \<and> map fst (active_clients (shared (run no_failures no_sigpipe reuse_actions initial_system)))
       = [''A'', ''B'', ''C'']
   \<and> dir_find ''A'' (active_clients (shared
         (run no_failures no_sigpipe reuse_actions initial_system)))
       = Some (client_entry 5 ''A'' 5001)
   \<and> last (stream_writes (trace (shared
         (run no_failures no_sigpipe reuse_actions initial_system))))
       = (5, ''FROM B: secret'')
   \<and> sessions (run no_failures no_sigpipe duplicate_actions initial_system) = [(6, ''A'')]
   \<and> closing (run no_failures no_sigpipe duplicate_actions initial_system) = []
   \<and> active_clients (shared (run no_failures no_sigpipe duplicate_actions initial_system)) = []"
  by code_simp

end
